theory Spec2Isabelle
  imports Complex_Main "HOL-Library.AList"
begin

section \<open>Strings\<close>

text \<open>
  A JavaScript string is a sequence of UTF-16 code units. A code unit is modelled as a
  natural number, a string as the list of its code units. \<open>js\<close> turns an ASCII literal
  into such a list.
\<close>

type_synonym uchar = nat
type_synonym jstring = "uchar list"

definition js :: "string \<Rightarrow> jstring" where
  "js s = map of_char s"

text \<open>
  White space as \<open>\s\<close> and \<open>String.prototype.trim\<close> see it: TAB, LF, VT, FF, CR, SP, NBSP,
  the Unicode space separators, LS, PS and the byte order mark.
\<close>

definition is_space :: "uchar \<Rightarrow> bool" where
  "is_space c \<longleftrightarrow>
     (9 \<le> c \<and> c \<le> 13) \<or> c = 32 \<or> c = 160 \<or> c = 5760 \<or> (8192 \<le> c \<and> c \<le> 8202) \<or>
     c = 8232 \<or> c = 8233 \<or> c = 8239 \<or> c = 8287 \<or> c = 12288 \<or> c = 65279"

definition is_digit :: "uchar \<Rightarrow> bool" where
  "is_digit c \<longleftrightarrow> 48 \<le> c \<and> c \<le> 57"

text \<open>The dot of a regular expression without the \<open>s\<close> flag: anything but LF, CR, LS, PS.\<close>

definition is_dot :: "uchar \<Rightarrow> bool" where
  "is_dot c \<longleftrightarrow> c \<noteq> 10 \<and> c \<noteq> 13 \<and> c \<noteq> 8232 \<and> c \<noteq> 8233"

definition trim :: "jstring \<Rightarrow> jstring" where
  "trim s = rev (dropWhile is_space (rev (dropWhile is_space s)))"

section \<open>Regular expressions\<close>

text \<open>
  The fragment of the regular expressions that \<open>extractProductInfo\<close> uses, all under the
  flag \<open>i\<close>: literals, classes, sequence, alternation, the greedy \<open>?\<close>, the quantifiers
  \<open>*\<close>, \<open>+\<close> and the lazy \<open>+?\<close> over one class, the capturing group 1 and \<open>$\<close>.
\<close>

datatype rx =
    Eps
  | Lit uchar
  | Seq rx rx
  | Alt rx rx
  | Opt rx
  | Star "uchar \<Rightarrow> bool"
  | Plus "uchar \<Rightarrow> bool"
  | PlusLazy "uchar \<Rightarrow> bool"
  | Group rx
  | EndInput

text \<open>
  Canonicalize of the flag \<open>i\<close> (no \<open>u\<close> flag): the upper-case form of one code unit.
  Written out for ASCII and Latin-1 letters. The literals of the patterns below are ASCII
  characters and U+00E2, U+201A, U+00B9; no code unit outside the ranges written out
  here canonicalizes to one of their canonical forms, so comparing against them is exact.
\<close>

definition canonicalize :: "uchar \<Rightarrow> uchar" where
  "canonicalize c =
     (if 97 \<le> c \<and> c \<le> 122 then c - 32
      else if 224 \<le> c \<and> c \<le> 254 \<and> c \<noteq> 247 then c - 32
      else c)"

fun star_greedy :: "(uchar \<Rightarrow> bool) \<Rightarrow> jstring \<Rightarrow> (jstring \<Rightarrow> 'r option) \<Rightarrow> 'r option" where
  "star_greedy P [] k = k []"
| "star_greedy P (c # cs) k =
     (if P c then (case star_greedy P cs k of Some r \<Rightarrow> Some r | None \<Rightarrow> k (c # cs))
      else k (c # cs))"

fun star_lazy :: "(uchar \<Rightarrow> bool) \<Rightarrow> jstring \<Rightarrow> (jstring \<Rightarrow> 'r option) \<Rightarrow> 'r option" where
  "star_lazy P [] k = k []"
| "star_lazy P (c # cs) k =
     (case k (c # cs) of Some r \<Rightarrow> Some r
      | None \<Rightarrow> if P c then star_lazy P cs k else None)"

text \<open>
  The backtracking matcher in continuation-passing style: \<open>rx_match r s g k\<close> matches
  \<open>r\<close> at the start of the remaining input \<open>s\<close>, with \<open>g\<close> the capture of group 1 so far
  (\<open>None\<close> is undefined), and hands the rest of the input to \<open>k\<close>; when \<open>k\<close> fails
  the next alternative is tried, in the order of ECMAScript.
\<close>

fun rx_match :: "rx \<Rightarrow> jstring \<Rightarrow> jstring option \<Rightarrow>
    (jstring \<Rightarrow> jstring option \<Rightarrow> 'r option) \<Rightarrow> 'r option" where
  "rx_match Eps s g k = k s g"
| "rx_match (Lit c) s g k =
     (case s of [] \<Rightarrow> None
      | d # ds \<Rightarrow> if canonicalize d = canonicalize c then k ds g else None)"
| "rx_match (Seq a b) s g k = rx_match a s g (\<lambda>s' g'. rx_match b s' g' k)"
| "rx_match (Alt a b) s g k =
     (case rx_match a s g k of Some r \<Rightarrow> Some r | None \<Rightarrow> rx_match b s g k)"
| "rx_match (Opt a) s g k =
     (case rx_match a s g k of Some r \<Rightarrow> Some r | None \<Rightarrow> k s g)"
| "rx_match (Star P) s g k = star_greedy P s (\<lambda>s'. k s' g)"
| "rx_match (Plus P) s g k =
     (case s of [] \<Rightarrow> None
      | c # cs \<Rightarrow> if P c then star_greedy P cs (\<lambda>s'. k s' g) else None)"
| "rx_match (PlusLazy P) s g k =
     (case s of [] \<Rightarrow> None
      | c # cs \<Rightarrow> if P c then star_lazy P cs (\<lambda>s'. k s' g) else None)"
| "rx_match (Group a) s g k =
     rx_match a s g (\<lambda>s' g'. k s' (Some (take (length s - length s') s)))"
| "rx_match EndInput s g k = (if s = [] then k s g else None)"

text \<open>
  \<open>String.prototype.match\<close> with a regular expression without the \<open>g\<close> flag: the
  leftmost match, tried at every index from 0 to the length of the input. The result
  is \<open>None\<close> for \<open>null\<close>, else the capture of group 1 (\<open>match[1]\<close>).
\<close>

definition rx_at :: "rx \<Rightarrow> jstring \<Rightarrow> jstring option option" where
  "rx_at r s = rx_match r s None (\<lambda>s' g. Some g)"

fun rx_search :: "rx \<Rightarrow> jstring \<Rightarrow> jstring option option" where
  "rx_search r [] = rx_at r []"
| "rx_search r (c # cs) =
     (case rx_at r (c # cs) of Some g \<Rightarrow> Some g | None \<Rightarrow> rx_search r cs)"

fun str :: "jstring \<Rightarrow> rx" where
  "str [] = Eps"
| "str (c # cs) = Seq (Lit c) (str cs)"

fun alts :: "rx list \<Rightarrow> rx" where
  "alts [] = Eps"
| "alts [r] = r"
| "alts (r # rs) = Alt r (alts rs)"

fun seqs :: "rx list \<Rightarrow> rx" where
  "seqs [] = Eps"
| "seqs [r] = r"
| "seqs (r # rs) = Seq r (seqs rs)"

section \<open>extractProductInfo\<close>

definition sep :: rx where
  \<comment> \<open>\<open>[\s:]+\<close>\<close>
  "sep = Plus (\<lambda>c. is_space c \<or> c = 58)"

definition line_end :: rx where
  \<comment> \<open>\<open>(?:\n|$)\<close>\<close>
  "line_end = Alt (Lit 10) EndInput"

definition labelled :: "string list \<Rightarrow> rx \<Rightarrow> rx" where
  \<comment> \<open>\<open>(?:l1|l2|...)[\s:]+(.+?)\<close> followed by the terminator \<open>t\<close>\<close>
  "labelled ls t = seqs [alts (map (\<lambda>l. str (js l)) ls), sep, Group (PlusLazy is_dot), t]"

definition price_rx :: rx where
  \<comment> \<open>\<open>(?:price|selling price|mrp)[\s:]+(?:rs\.?|XYZ)?\s*(\d+(?:\.\d+)?)\<close>, where \<open>XYZ\<close>
      stands for the three code units U+00E2 U+201A U+00B9 that the source file holds there\<close>
  "price_rx = seqs
     [alts [str (js ''price''), str (js ''selling price''), str (js ''mrp'')],
      sep,
      Opt (Alt (seqs [str (js ''rs''), Opt (Lit 46)]) (str [226, 8218, 185])),
      Star is_space,
      Group (Seq (Plus is_digit) (Opt (Seq (Lit 46) (Plus is_digit))))]"

definition patterns :: "(jstring \<times> rx) list" where
  "patterns =
    [(js ''name'', labelled [''product name'', ''name'', ''title''] line_end),
     (js ''brand'', labelled [''brand'', ''manufacturer''] line_end),
     (js ''price'', price_rx),
     (js ''category'', labelled [''category'', ''type''] line_end),
     (js ''description'',
        labelled [''description'', ''details''] (Alt (Seq (Lit 10) (Lit 10)) EndInput)),
     (js ''size'', labelled [''size''] line_end),
     (js ''color'', labelled [''color'', ''colour''] line_end),
     (js ''material'', labelled [''material'', ''fabric''] line_end),
     (js ''weight'', labelled [''weight''] line_end),
     (js ''sku'', labelled [''sku'', ''product id'', ''item code''] line_end)]"

datatype error = TypeError

type_synonym fields = "(jstring \<times> jstring) list"

text \<open>
  The loop over \<open>Object.entries(patterns)\<close>. \<open>match[1].trim()\<close> throws a TypeError when
  group 1 is undefined. (The source also computes \<open>lines\<close>, which it never reads.)
\<close>

fun extract_loop :: "(jstring \<times> rx) list \<Rightarrow> jstring \<Rightarrow> fields \<Rightarrow> error + fields" where
  "extract_loop [] rawData extracted = Inr extracted"
| "extract_loop ((key, pattern) # ps) rawData extracted =
     (case rx_search pattern rawData of
        None \<Rightarrow> extract_loop ps rawData extracted
      | Some None \<Rightarrow> Inl TypeError
      | Some (Some m) \<Rightarrow> extract_loop ps rawData (AList.update key (trim m) extracted))"

definition extractProductInfo :: "jstring \<Rightarrow> error + fields" where
  "extractProductInfo rawData = extract_loop patterns rawData []"

section \<open>Numbers\<close>

text \<open>
  A Number is an IEEE 754 binary64 value. A finite one is modelled by the rational it
  denotes (the sign of zero is not kept: nothing below reads it), so that the
  arithmetic is exact and the rounding to binary64 is written out.
\<close>

datatype number = NaN | PosInf | NegInf | Fin rat

fun bitlen :: "nat \<Rightarrow> nat" where
  "bitlen n = (if n = 0 then 0 else Suc (bitlen (n div 2)))"

declare bitlen.simps [simp del]

definition pow2 :: "int \<Rightarrow> rat" where
  "pow2 k = (if 0 \<le> k then 2 ^ nat k else 1 / 2 ^ nat (- k))"

definition round_half_even :: "rat \<Rightarrow> int" where
  "round_half_even x =
     (let f = \<lfloor>x\<rfloor>; d = x - of_int f
      in if d < 1 / 2 then f else if 1 / 2 < d then f + 1 else if even f then f else f + 1)"

text \<open>
  \<open>ilog2 q\<close> is the integer \<open>e\<close> with \<open>2 ^ e \<le> q < 2 ^ (e + 1)\<close>, for \<open>q > 0\<close>: from the
  number of bits of \<open>\<lfloor>q\<rfloor>\<close> when \<open>q \<ge> 1\<close>, of \<open>\<lceil>1 / q\<rceil> - 1\<close> otherwise.
\<close>

definition ilog2 :: "rat \<Rightarrow> int" where
  "ilog2 q =
     (if 1 \<le> q then int (bitlen (nat \<lfloor>q\<rfloor>)) - 1
      else - int (bitlen (nat (\<lceil>1 / q\<rceil> - 1))))"

text \<open>
  The binary64 value nearest to a non-negative rational, ties to even: 53 bits of
  significand, the least exponent of a unit in the last place \<open>-1074\<close>, and overflow to
  infinity from \<open>2 ^ 1024\<close> on.
\<close>

definition round_pos :: "rat \<Rightarrow> rat" where
  "round_pos q =
     (if q = 0 then 0
      else let u = max (ilog2 q - 52) (- 1074)
           in of_int (round_half_even (q / pow2 u)) * pow2 u)"

definition round_double :: "rat \<Rightarrow> number" where
  "round_double q =
     (let v = round_pos \<bar>q\<bar>
      in if 2 ^ 1024 \<le> v then (if q < 0 then NegInf else PosInf)
         else Fin (if q < 0 then - v else v))"

definition js_times :: "number \<Rightarrow> number \<Rightarrow> number" where
  "js_times x y =
     (case (x, y) of
        (Fin a, Fin b) \<Rightarrow> round_double (a * b)
      | (NaN, _) \<Rightarrow> NaN
      | (_, NaN) \<Rightarrow> NaN
      | (Fin a, PosInf) \<Rightarrow> if a = 0 then NaN else if 0 < a then PosInf else NegInf
      | (Fin a, NegInf) \<Rightarrow> if a = 0 then NaN else if 0 < a then NegInf else PosInf
      | (PosInf, Fin b) \<Rightarrow> if b = 0 then NaN else if 0 < b then PosInf else NegInf
      | (NegInf, Fin b) \<Rightarrow> if b = 0 then NaN else if 0 < b then NegInf else PosInf
      | (PosInf, PosInf) \<Rightarrow> PosInf
      | (NegInf, NegInf) \<Rightarrow> PosInf
      | (PosInf, NegInf) \<Rightarrow> NegInf
      | (NegInf, PosInf) \<Rightarrow> NegInf)"

definition digits_value :: "jstring \<Rightarrow> nat" where
  "digits_value ds = foldl (\<lambda>acc c. 10 * acc + (c - 48)) 0 ds"

definition starts_with :: "jstring \<Rightarrow> jstring \<Rightarrow> bool" where
  "starts_with s p \<longleftrightarrow> take (length p) s = p"

text \<open>
  The exponent part of a StrDecimalLiteral, when there is one: \<open>e\<close> or \<open>E\<close>, an optional
  sign, and at least one digit.
\<close>

definition exponent_part :: "jstring \<Rightarrow> int" where
  "exponent_part r =
     (case r of
        [] \<Rightarrow> 0
      | c # r1 \<Rightarrow>
          if c = 101 \<or> c = 69 then
            (let neg = starts_with r1 [45];
                 r2 = (if starts_with r1 [45] \<or> starts_with r1 [43] then tl r1 else r1);
                 ds = takeWhile is_digit r2
             in if ds = [] then 0
                else if neg then - int (digits_value ds) else int (digits_value ds))
          else 0)"

definition pow10 :: "int \<Rightarrow> rat" where
  "pow10 k = (if 0 \<le> k then 10 ^ nat k else 1 / 10 ^ nat (- k))"

text \<open>
  \<open>parseFloat\<close>: leading white space is skipped, the longest prefix that is a
  StrDecimalLiteral is read, and its value is rounded to binary64 (correctly rounded, as
  V8 does, also beyond 20 significant digits); \<open>NaN\<close> when there is no such prefix.
\<close>

definition parseFloat :: "jstring \<Rightarrow> number" where
  "parseFloat s =
     (let t = dropWhile is_space s;
          neg = starts_with t [45];
          r = (if starts_with t [45] \<or> starts_with t [43] then tl t else t)
      in if starts_with r (js ''Infinity'') then (if neg then NegInf else PosInf)
         else
           let ip = takeWhile is_digit r;
               r1 = dropWhile is_digit r;
               dot = starts_with r1 [46];
               fp = (if dot then takeWhile is_digit (tl r1) else []);
               r2 = (if dot then dropWhile is_digit (tl r1) else r1)
           in if ip = [] \<and> fp = [] then NaN
              else
                let mv = (of_nat (digits_value ip) + of_nat (digits_value fp) / 10 ^ length fp)
                           * pow10 (exponent_part r2)
                in round_double (if neg then - mv else mv))"

fun show_digits :: "nat \<Rightarrow> jstring \<Rightarrow> jstring" where
  "show_digits n acc =
     (if n < 10 then (48 + n) # acc else show_digits (n div 10) ((48 + n mod 10) # acc))"

declare show_digits.simps [simp del]

definition show_nat :: "nat \<Rightarrow> jstring" where
  \<comment> \<open>the decimal digits of a natural number\<close>
  "show_nat n = show_digits n []"

text \<open>
  \<open>Number::toString\<close> for a finite value \<open>x \<ge> 10 ^ 21\<close> (an integer): the least number
  \<open>k\<close> of digits \<open>s\<close> with \<open>s * 10 ^ (n - k)\<close> rounding to \<open>x\<close>, the \<open>s\<close> nearest to \<open>x\<close>
  (the even one on a tie), in exponential notation. \<open>d\<close> below is the number of decimal
  digits of \<open>x\<close>; 17 digits always suffice.
\<close>

definition shortest_at :: "nat \<Rightarrow> nat \<Rightarrow> nat \<Rightarrow> (nat \<times> nat) option" where
  "shortest_at x d k =
     (let sc = 10 ^ (d - k);
          lo = x div sc;
          hi = lo + 1;
          ok = (\<lambda>c. round_double (of_nat (c * sc)) = Fin (of_nat x));
          pick = (if ok lo \<and> ok hi then
                    (if x - lo * sc < hi * sc - x then Some lo
                     else if hi * sc - x < x - lo * sc then Some hi
                     else if even lo then Some lo else Some hi)
                  else if ok lo then Some lo
                  else if ok hi then Some hi
                  else None)
      in case pick of
           None \<Rightarrow> None
         | Some s \<Rightarrow> if s = 10 ^ k then Some (10 ^ (k - 1), d + 1) else Some (s, d))"

fun shortest :: "nat \<Rightarrow> nat \<Rightarrow> nat list \<Rightarrow> nat \<times> nat" where
  "shortest x d [] = (x div 10 ^ (d - 17), d)"
| "shortest x d (k # ks) =
     (case shortest_at x d k of Some r \<Rightarrow> r | None \<Rightarrow> shortest x d ks)"

definition toString_large :: "nat \<Rightarrow> jstring" where
  "toString_large x =
     (let (s, n) = shortest x (length (show_nat x)) [1 ..< 18];
          ds = show_nat s
      in (if length ds = 1 then ds else hd ds # 46 # tl ds) @ js ''e+'' @ show_nat (n - 1))"

text \<open>\<open>Number.prototype.toFixed(f)\<close>, for \<open>f\<close> from 0 to 100.\<close>

definition toFixed :: "nat \<Rightarrow> number \<Rightarrow> jstring" where
  "toFixed f v =
     (case v of
        NaN \<Rightarrow> js ''NaN''
      | PosInf \<Rightarrow> js ''Infinity''
      | NegInf \<Rightarrow> js ''-Infinity''
      | Fin q \<Rightarrow>
          (let s = (if q < 0 then [45] else []);
               x = \<bar>q\<bar>
           in if 10 ^ 21 \<le> x then s @ toString_large (nat \<lfloor>x\<rfloor>)
              else
                let n = nat \<lfloor>x * 10 ^ f + 1 / 2\<rfloor>;
                    m = show_nat n;
                    m' = (if length m \<le> f then replicate (f + 1 - length m) 48 @ m else m);
                    k = length m'
                in if f = 0 then s @ m
                   else s @ take (k - f) m' @ [46] @ drop (k - f) m'))"

section \<open>String operations\<close>

fun js_split :: "uchar \<Rightarrow> jstring \<Rightarrow> jstring list" where
  \<comment> \<open>\<open>s.split(d)\<close> for a separator of one code unit\<close>
  "js_split d [] = [[]]"
| "js_split d (c # cs) =
     (if c = d then [] # js_split d cs
      else case js_split d cs of [] \<Rightarrow> [[c]] | x # xs \<Rightarrow> (c # x) # xs)"

fun js_join :: "jstring \<Rightarrow> jstring list \<Rightarrow> jstring" where
  \<comment> \<open>\<open>xs.join(d)\<close>\<close>
  "js_join d [] = []"
| "js_join d [x] = x"
| "js_join d (x # xs) = x @ d @ js_join d xs"

function replace_spaces :: "jstring \<Rightarrow> jstring" where
  \<comment> \<open>\<open>s.replace(/\s+/g, '_')\<close>: every maximal run of white space becomes one underscore\<close>
  "replace_spaces [] = []"
| "replace_spaces (c # cs) =
     (if is_space c then 95 # replace_spaces (dropWhile is_space cs)
      else c # replace_spaces cs)"
  by pat_completeness auto
termination
  by (relation "measure length") (auto simp: less_Suc_eq_le length_dropWhile_le)

definition toUpperCase :: "jstring \<Rightarrow> jstring" where
  \<comment> \<open>only ever applied to a key of \<open>PLATFORM_FIELDS\<close>, which is ASCII\<close>
  "toUpperCase s = map (\<lambda>c. if 97 \<le> c \<and> c \<le> 122 then c - 32 else c) s"

text \<open>
  \<open>String.prototype.toLowerCase\<close>. On a string of ASCII code units it maps \<open>A\<close>-\<open>Z\<close> to
  \<open>a\<close>-\<open>z\<close>; on any other string the result is what the Unicode case mapping of the host
  gives, the parameter \<open>lc\<close>.
\<close>

definition toLowerCase :: "(jstring \<Rightarrow> jstring) \<Rightarrow> jstring \<Rightarrow> jstring" where
  "toLowerCase lc s =
     (if list_all (\<lambda>c. c < 128) s then map (\<lambda>c. if 65 \<le> c \<and> c \<le> 90 then c + 32 else c) s
      else lc s)"

fun js_includes :: "jstring \<Rightarrow> jstring \<Rightarrow> bool" where
  \<comment> \<open>\<open>s.includes(p)\<close>\<close>
  "js_includes [] p = (p = [])"
| "js_includes (c # cs) p = (starts_with (c # cs) p \<or> js_includes cs p)"

section \<open>generatePlatformListing\<close>

record platform_fields =
  required :: "jstring list"
  optional :: "jstring list"

definition PLATFORM_FIELDS :: "(jstring \<times> platform_fields) list" where
  "PLATFORM_FIELDS =
    [(js ''amazon'',
      \<lparr>required = map js [''Product Name'', ''Brand'', ''Category'', ''Price'', ''MRP'', ''SKU'',
                            ''Description'', ''Key Features'', ''Images''],
       optional = map js [''Weight'', ''Dimensions'', ''Color'', ''Size'', ''Material'',
                            ''HSN Code'', ''GST'']\<rparr>),
     (js ''flipkart'',
      \<lparr>required = map js [''Product Name'', ''Brand'', ''Category'', ''Listing Price'', ''MRP'',
                            ''Product ID'', ''Description'', ''Key Features'', ''Product Image''],
       optional = map js [''Package Weight'', ''Package Dimensions'', ''Color'', ''Size'',
                            ''Material'', ''HSN Code'']\<rparr>),
     (js ''meesho'',
      \<lparr>required = map js [''Product Name'', ''Category'', ''Price'', ''Product Description'',
                            ''Product Images'', ''Size'', ''Color''],
       optional = map js [''Brand'', ''Material'', ''Weight'', ''HSN Code'', ''Return Policy'']\<rparr>),
     (js ''myntra'',
      \<lparr>required = map js [''Product Name'', ''Brand'', ''Category'', ''MRP'', ''Selling Price'',
                            ''Style ID'', ''Description'', ''Size'', ''Color'', ''Images''],
       optional = map js [''Material'', ''Care Instructions'', ''Occasion'', ''Pattern'', ''Fit'']\<rparr>)]"

text \<open>\<open>v || d\<close> on a string that may be undefined: \<open>undefined\<close> and \<open>''\<close> are falsy.\<close>

definition or_else :: "jstring option \<Rightarrow> jstring \<Rightarrow> jstring" where
  "or_else v d = (case v of None \<Rightarrow> d | Some s \<Rightarrow> if s = [] then d else s)"

text \<open>
  The table \<open>fieldMapping\<close>. \<open>now\<close> holds the three values that \<open>Date.now()\<close> returns at
  the entries \<open>SKU\<close>, \<open>Product ID\<close> and \<open>Style ID\<close>; they are read only when \<open>sku\<close> is
  falsy.
\<close>

definition fieldMapping :: "nat \<times> nat \<times> nat \<Rightarrow> fields \<Rightarrow> (jstring \<times> jstring) list" where
  "fieldMapping now extractedData =
     (let get = (\<lambda>k. map_of extractedData (js k)) in
      [(js ''Product Name'', or_else (get ''name'') []),
       (js ''Brand'', or_else (get ''brand'') (js ''Generic'')),
       (js ''Category'', or_else (get ''category'') []),
       (js ''Price'', or_else (get ''price'') []),
       (js ''Selling Price'', or_else (get ''price'') []),
       (js ''Listing Price'', or_else (get ''price'') []),
       (js ''MRP'',
          (if or_else (get ''price'') [] \<noteq> []
           then toFixed 2 (js_times (parseFloat (or_else (get ''price'') [])) (round_double (12 / 10)))
           else [])),
       (js ''SKU'', or_else (get ''sku'') (js ''SKU'' @ show_nat (fst now))),
       (js ''Product ID'', or_else (get ''sku'') (js ''PID'' @ show_nat (fst (snd now)))),
       (js ''Style ID'', or_else (get ''sku'') (js ''STYLE'' @ show_nat (snd (snd now)))),
       (js ''Description'', or_else (get ''description'') []),
       (js ''Product Description'', or_else (get ''description'') []),
       (js ''Key Features'',
          (if or_else (get ''description'') [] \<noteq> []
           then js_join (js ''. '') (take 5 (js_split 46 (or_else (get ''description'') [])))
           else [])),
       (js ''Size'', or_else (get ''size'') []),
       (js ''Color'', or_else (get ''color'') []),
       (js ''Material'', or_else (get ''material'') []),
       (js ''Weight'', or_else (get ''weight'') []),
       (js ''Package Weight'', or_else (get ''weight'') []),
       (js ''Images'', js ''[Image URLs]''),
       (js ''Product Image'', js ''[Image URLs]''),
       (js ''Product Images'', js ''[Image URLs]'')])"

definition listing_key :: "jstring \<Rightarrow> jstring \<Rightarrow> jstring" where
  \<comment> \<open>\<open>`${platform.toUpperCase()}_${field.replace(/\s+/g, '_')}`\<close>\<close>
  "listing_key platform field = toUpperCase platform @ js ''_'' @ replace_spaces field"

definition fill_required :: "(jstring \<times> jstring) list \<Rightarrow> jstring \<Rightarrow> jstring \<Rightarrow> fields \<Rightarrow> fields" where
  "fill_required fm platform field listing =
     AList.update (listing_key platform field)
       (or_else (map_of fm field) (js ''[REQUIRED]'')) listing"

definition fill_optional :: "(jstring \<times> jstring) list \<Rightarrow> jstring \<Rightarrow> jstring \<Rightarrow> fields \<Rightarrow> fields" where
  "fill_optional fm platform field listing =
     (if or_else (map_of fm field) [] \<noteq> []
      then AList.update (listing_key platform field) (or_else (map_of fm field) []) listing
      else listing)"

text \<open>
  An unknown platform makes \<open>fields\<close> undefined, and \<open>fields.required\<close> throws a
  TypeError.
\<close>

definition generatePlatformListing :: "nat \<times> nat \<times> nat \<Rightarrow> fields \<Rightarrow> jstring \<Rightarrow> error + fields" where
  "generatePlatformListing now extractedData platform =
     (case map_of PLATFORM_FIELDS platform of
        None \<Rightarrow> Inl TypeError
      | Some flds \<Rightarrow>
          (let fm = fieldMapping now extractedData
           in Inr (fold (fill_optional fm platform) (optional flds)
                    (fold (fill_required fm platform) (required flds) []))))"

section \<open>analyzeMessage\<close>

record analysis =
  intent :: jstring
  platforms :: "jstring list"

definition analyzeMessage :: "(jstring \<Rightarrow> jstring) \<Rightarrow> jstring \<Rightarrow> analysis" where
  "analyzeMessage lc message =
     (let messageLower = toLowerCase lc message;
          has = (\<lambda>w. js_includes messageLower (js w));
          intent =
            (if has ''catalog'' \<or> has ''listing'' \<or> has ''product'' then js ''catalog''
             else if has ''task'' \<or> has ''remind'' \<or> has ''schedule'' then js ''task''
             else if has ''help'' \<or> has ''how'' then js ''help''
             else if has ''analyze'' \<or> has ''check'' then js ''analyze''
             else js ''general'');
          platforms =
            (if has ''amazon'' then [js ''amazon''] else []) @
            (if has ''flipkart'' then [js ''flipkart''] else []) @
            (if has ''meesho'' then [js ''meesho''] else []) @
            (if has ''myntra'' then [js ''myntra''] else [])
      in \<lparr>intent = intent,
          platforms =
            (if platforms = [] \<and> intent = js ''catalog''
             then [js ''amazon'', js ''flipkart'', js ''meesho'', js ''myntra'']
             else platforms)\<rparr>)"

section \<open>The request handler\<close>

text \<open>
  A catalog row is a flat object of strings and numbers, a catalog a list of rows. The
  request carries the three fields that the client sends: a string, an array of rows and
  a string.
\<close>

datatype cell = Str jstring | Num rat

type_synonym row = "(jstring \<times> cell) list"

record request =
  message :: jstring
  catalogData :: "row list"
  rawData :: jstring

record reply =
  response :: jstring
  updatedCatalog :: "row list option"
  status :: nat

definition assign :: "row \<Rightarrow> fields \<Rightarrow> row" where
  \<comment> \<open>\<open>Object.assign(newItem, platformData)\<close>\<close>
  "assign newItem platformData = fold (\<lambda>(k, v). AList.update k (Str v)) platformData newItem"

text \<open>
  The loop \<open>platforms.forEach\<close> of the catalog branch; \<open>clock i\<close> holds the values of
  \<open>Date.now()\<close> during the call for the platform at index \<open>i\<close>.
\<close>

fun listings_loop :: "(nat \<Rightarrow> nat \<times> nat \<times> nat) \<Rightarrow> fields \<Rightarrow> jstring list \<Rightarrow> nat \<Rightarrow> row \<Rightarrow> error + row" where
  "listings_loop clock extracted [] i newItem = Inr newItem"
| "listings_loop clock extracted (platform # ps) i newItem =
     (case generatePlatformListing (clock i) extracted platform of
        Inl e \<Rightarrow> Inl e
      | Inr platformData \<Rightarrow> listings_loop clock extracted ps (Suc i) (assign newItem platformData))"

text \<open>
  \<open>PLATFORM_FIELDS[p]\<close> followed by the read of a property: for a platform that is no key
  of the table the value is undefined, and the read throws a TypeError.
\<close>

definition fields_of :: "jstring \<Rightarrow> error + platform_fields" where
  "fields_of p = (case map_of PLATFORM_FIELDS p of None \<Rightarrow> Inl TypeError | Some flds \<Rightarrow> Inr flds)"

fun map_result :: "('a \<Rightarrow> error + 'b) \<Rightarrow> 'a list \<Rightarrow> error + 'b list" where
  \<comment> \<open>\<open>xs.map(f)\<close> for an \<open>f\<close> that may throw\<close>
  "map_result f [] = Inr []"
| "map_result f (x # xs) =
     (case f x of
        Inl e \<Rightarrow> Inl e
      | Inr y \<Rightarrow> (case map_result f xs of Inl e \<Rightarrow> Inl e | Inr ys \<Rightarrow> Inr (y # ys)))"

definition filled_line :: "jstring \<Rightarrow> error + jstring" where
  \<open>filled_line p =
     (case fields_of p of
        Inl e \<Rightarrow> Inl e
      | Inr flds \<Rightarrow>
          Inr (js ''- '' @ toUpperCase p @ js '': '' @ show_nat (length (required flds)) @
               js '' required fields filled''))\<close>

definition catalog_processed :: "jstring list \<Rightarrow> fields \<Rightarrow> error + jstring" where
  \<open>catalog_processed plats extracted =
     (case map_result filled_line plats of
        Inl e \<Rightarrow> Inl e
      | Inr filled \<Rightarrow>
          Inr (js_join [10]
            [js ''I've processed your product data and created listings for '' @
               js_join (js '', '') plats @ js ''.'',
             [],
             js ''Product: '' @ or_else (map_of extracted (js ''name'')) (js ''New Product''),
             (if or_else (map_of extracted (js ''brand'')) [] \<noteq> []
              then js ''Brand: '' @ or_else (map_of extracted (js ''brand'')) [] else []),
             (if or_else (map_of extracted (js ''price'')) [] \<noteq> []
              then js ''Price: '' @ [226, 8218, 185] @ or_else (map_of extracted (js ''price'')) []
              else []),
             [],
             js ''Generated fields for:'',
             js_join [10] filled,
             [],
             js ''The catalog has been updated. Please review and add images, then download to use for listing.'']))\<close>

definition catalog_guidance :: "jstring list \<Rightarrow> jstring" where
  \<open>catalog_guidance plats = js_join [10]
    [js ''To create product listings, please:'',
     js ''1. Upload your catalog file (Excel/CSV)'',
     js ''2. Switch to the Catalog Manager tab'',
     js ''3. Paste your raw product data in the text area'',
     js ''4. I'll automatically format it for '' @
       (if plats \<noteq> [] then js_join (js '', '') plats else js ''all platforms''),
     [],
     js ''Or you can tell me the product details and I'll help format them!'']\<close>

text \<open>
  The required fields of one platform that the row lacks: the key is absent, its value
  is falsy (\<open>''\<close> or \<open>0\<close>), or it is the sentinel.
\<close>

definition falsy :: "cell option \<Rightarrow> bool" where
  "falsy v \<longleftrightarrow> (case v of None \<Rightarrow> True | Some (Str s) \<Rightarrow> s = [] | Some (Num n) \<Rightarrow> n = 0)"

definition missing_of :: "row \<Rightarrow> jstring \<Rightarrow> error + jstring list" where
  "missing_of item platform =
     (case fields_of platform of
        Inl e \<Rightarrow> Inl e
      | Inr flds \<Rightarrow>
          Inr (map (\<lambda>field. platform @ js '': '' @ field)
                (filter (\<lambda>field. falsy (map_of item (listing_key platform field)) \<or>
                     map_of item (listing_key platform field) = Some (Str (js ''[REQUIRED]'')))
                   (required flds))))"

definition analysis_missing :: "jstring list \<Rightarrow> jstring" where
  \<open>analysis_missing missingFields =
     js ''Analysis complete! Found '' @ show_nat (length missingFields) @
     js '' missing required fields:'' @ [10, 10] @ js_join [10] (take 10 missingFields) @ [10, 10] @
     js ''Provide the missing information and I'll update your catalog.''\<close>

definition analysis_complete :: "jstring list \<Rightarrow> jstring" where
  \<open>analysis_complete plats =
     js ''Great! Your catalog looks complete for '' @ js_join (js '', '') plats @
     js ''. All required fields are filled. You're ready to list your products!''\<close>

definition no_catalog_loaded :: jstring where
  "no_catalog_loaded = js ''No catalog loaded. Please upload a catalog file first.''"

definition numbered :: "jstring list \<Rightarrow> jstring" where
  \<comment> \<open>\<open>fs.map((f, i) => `${i + 1}. ${f}`).join('\n')\<close>\<close>
  "numbered fs = js_join [10] (map (\<lambda>(i, f). show_nat (i + 1) @ js ''. '' @ f) (enumerate 0 fs))"

definition requirements :: "jstring \<Rightarrow> error + jstring" where
  \<open>requirements platform =
     (case fields_of platform of
        Inl e \<Rightarrow> Inl e
      | Inr flds \<Rightarrow>
          Inr (js_join [10]
            [toUpperCase platform @ js '' Listing Requirements:'',
             [],
             js ''Required Fields:'',
             numbered (required flds),
             [],
             js ''Optional but Recommended:'',
             numbered (optional flds),
             [],
             js ''Tips:'',
             js ''- Use high-quality images (minimum 1000x1000px)'',
             js ''- Write detailed descriptions with keywords'',
             js ''- Include accurate measurements and specifications'',
             js ''- Add all relevant attributes for better discoverability'']))\<close>

definition help_response :: jstring where
  \<open>help_response = js_join [10]
    [js ''I'm JARVIS, your personal AI assistant! I can help you with:'',
     [],
     [240, 376, 8220, 8249] @ js '' Daily Tasks:'',
     js ''- Task reminders and scheduling'',
     js ''- Quick notes and organization'',
     js ''- Daily planning'',
     [],
     [240, 376, 8250, 8217] @ js '' E-commerce Catalog Management:'',
     js ''- Format product data for Amazon, Flipkart, Meesho, Myntra'',
     js ''- Auto-fill catalog sheets with product information'',
     js ''- Check for missing required fields'',
     js ''- Generate platform-specific listings'',
     [],
     [240, 376, 8220, 166] @ js '' How to use:'',
     js ''1. Upload your catalog Excel file'',
     js ''2. Paste raw product data in the Catalog Manager'',
     js ''3. I'll automatically format it for all platforms'',
     js ''4. Download the updated catalog'',
     [],
     js ''Just ask me anything or paste your product data!'']\<close>

definition task_response :: jstring where
  \<open>task_response = js_join [10]
    [js ''Task Management:'',
     [],
     js ''I can help you with:'',
     js ''- Set reminders: "Remind me to check inventory at 3 PM"'',
     js ''- Daily schedule: "What's on my agenda today?"'',
     js ''- Quick tasks: "Add checking Amazon orders to my todo list"'',
     [],
     js ''For catalog-related tasks, switch to the Catalog Manager tab and I'll help you process your product listings efficiently!'']\<close>

definition general_response :: jstring where
  \<open>general_response = js_join [10]
    [js ''Hello! I'm JARVIS, ready to assist you. I can help with:'',
     [],
     js ''- Daily task management and reminders'',
     js ''- E-commerce catalog processing for Amazon, Flipkart, Meesho, and Myntra'',
     js ''- Product listing preparation and data formatting'',
     [],
     js ''What would you like help with today?'']\<close>

definition error_response :: jstring where
  "error_response =
     js ''I apologize, but I encountered an error processing your request. Please try again.''"

text \<open>
  The branch \<open>catalog\<close> with raw data: the extracted fields, then one listing per platform
  merged into the new row, which is appended to a copy of the catalog.
\<close>

definition process_catalog :: "(nat \<Rightarrow> nat \<times> nat \<times> nat) \<Rightarrow> jstring list \<Rightarrow> request \<Rightarrow> error + reply" where
  "process_catalog clock plats req =
     (case extractProductInfo (rawData req) of
        Inl e \<Rightarrow> Inl e
      | Inr extracted \<Rightarrow>
          (case listings_loop clock extracted plats 0 (map (\<lambda>(k, v). (k, Str v)) extracted) of
             Inl e \<Rightarrow> Inl e
           | Inr newItem \<Rightarrow>
               (case catalog_processed plats extracted of
                  Inl e \<Rightarrow> Inl e
                | Inr r \<Rightarrow>
                    Inr \<lparr>response = r,
                         updatedCatalog = Some (catalogData req @ [newItem]),
                         status = 200\<rparr>)))"

definition answer :: "jstring \<Rightarrow> error + reply" where
  \<comment> \<open>a response text, with \<open>updatedCatalog\<close> left \<open>null\<close>\<close>
  "answer r = Inr \<lparr>response = r, updatedCatalog = None, status = 200\<rparr>"

definition handle :: "(jstring \<Rightarrow> jstring) \<Rightarrow> (nat \<Rightarrow> nat \<times> nat \<times> nat) \<Rightarrow> request \<Rightarrow> error + reply" where
  \<comment> \<open>the body of the \<open>try\<close> block\<close>
  "handle lc clock req =
     (let a = analyzeMessage lc (message req)
      in if intent a = js ''catalog'' then
           (if rawData req \<noteq> [] then process_catalog clock (platforms a) req
            else answer (catalog_guidance (platforms a)))
         else if intent a = js ''analyze'' then
           (case catalogData req of
              [] \<Rightarrow> answer no_catalog_loaded
            | item # _ \<Rightarrow>
                (case map_result (missing_of item) (platforms a) of
                   Inl e \<Rightarrow> Inl e
                 | Inr missing \<Rightarrow>
                     (let missingFields = concat missing
                      in if missingFields \<noteq> [] then answer (analysis_missing missingFields)
                         else answer (analysis_complete (platforms a)))))
         else if intent a = js ''help'' then
           (if js_includes (toLowerCase lc (message req)) (js ''requirement'') \<or>
               js_includes (toLowerCase lc (message req)) (js ''guideline'')
            then (case requirements (case platforms a of [] \<Rightarrow> js ''amazon'' | p # _ \<Rightarrow> p) of
                    Inl e \<Rightarrow> Inl e
                  | Inr r \<Rightarrow> answer r)
            else answer help_response)
         else if intent a = js ''task'' then answer task_response
         else answer general_response)"

text \<open>The handler: what the \<open>try\<close> block returns, or the answer of the \<open>catch\<close> block.\<close>

definition POST :: "(jstring \<Rightarrow> jstring) \<Rightarrow> (nat \<Rightarrow> nat \<times> nat \<times> nat) \<Rightarrow> request \<Rightarrow> reply" where
  "POST lc clock req =
     (case handle lc clock req of
        Inr r \<Rightarrow> r
      | Inl e \<Rightarrow> \<lparr>response = error_response, updatedCatalog = None, status = 500\<rparr>)"

section \<open>Auxiliary notions\<close>

text \<open>\<open>caps r\<close>: every match of \<open>r\<close> sets group 1.\<close>

primrec caps :: "rx \<Rightarrow> bool" where
  "caps Eps = False"
| "caps (Lit c) = False"
| "caps (Seq a b) = (caps a \<or> caps b)"
| "caps (Alt a b) = (caps a \<and> caps b)"
| "caps (Opt a) = False"
| "caps (Star P) = False"
| "caps (Plus P) = False"
| "caps (PlusLazy P) = False"
| "caps (Group a) = True"
| "caps EndInput = False"

definition marketplaces :: "jstring list" where
  "marketplaces = [js ''amazon'', js ''flipkart'', js ''meesho'', js ''myntra'']"

text \<open>
  \<open>ci_prefix p s\<close>: the input \<open>s\<close> starts with \<open>p\<close>, letter case ignored as the flag \<open>i\<close>
  does. \<open>label_at ls s\<close>: \<open>s\<close> starts with one of the labels \<open>ls\<close>.
  \<open>label_before ls pre t\<close>: in the text \<open>pre @ t\<close>, one of the labels begins at an index
  inside \<open>pre\<close>.
\<close>

fun ci_prefix :: "jstring \<Rightarrow> jstring \<Rightarrow> bool" where
  "ci_prefix [] s = True"
| "ci_prefix (c # cs) [] = False"
| "ci_prefix (c # cs) (d # ds) = (canonicalize d = canonicalize c \<and> ci_prefix cs ds)"

definition label_at :: "string list \<Rightarrow> jstring \<Rightarrow> bool" where
  "label_at ls s = list_ex (\<lambda>l. ci_prefix (js l) s) ls"

fun label_before :: "string list \<Rightarrow> jstring \<Rightarrow> jstring \<Rightarrow> bool" where
  "label_before ls [] t = False"
| "label_before ls (c # cs) t = (label_at ls (c # cs @ t) \<or> label_before ls cs t)"

text \<open>The character class of the separator \<open>[\s:]\<close>.\<close>

definition is_sep :: "uchar \<Rightarrow> bool" where
  "is_sep c \<longleftrightarrow> is_space c \<or> c = 58"

text \<open>
  The eight fields whose pattern captures the rest of a line, with their labels, and the
  property that no label of a list is the start of another one.
\<close>

definition line_fields :: "(string \<times> string list) list" where
  "line_fields =
    [(''name'', [''product name'', ''name'', ''title'']),
     (''brand'', [''brand'', ''manufacturer'']),
     (''category'', [''category'', ''type'']),
     (''size'', [''size'']),
     (''color'', [''color'', ''colour'']),
     (''material'', [''material'', ''fabric'']),
     (''weight'', [''weight'']),
     (''sku'', [''sku'', ''product id'', ''item code''])]"

definition prefix_free :: "string list \<Rightarrow> bool" where
  "prefix_free ls \<longleftrightarrow> (\<forall>a \<in> set ls. \<forall>b \<in> set ls. a \<noteq> b \<longrightarrow> \<not> ci_prefix (js a) (js b))"

text \<open>
  \<open>number_ends rest\<close>: what follows the digits of a price neither continues them nor
  adds a fraction, so a price pattern that has read the digits stops there.
\<close>

definition number_ends :: "jstring \<Rightarrow> bool" where
  "number_ends rest =
     (case rest of
        [] \<Rightarrow> True
      | c # r \<Rightarrow> \<not> is_digit c \<and> (c = 46 \<longrightarrow> (case r of [] \<Rightarrow> True | d # _ \<Rightarrow> \<not> is_digit d)))"

section \<open>Facts about strings\<close>

lemma js_eq_iff [simp]: "js a = js b \<longleftrightarrow> a = b"
  by (simp add: js_def inj_map_eq_map inj_of_char)

lemma js_Nil [simp]: "js [] = []"
  by (simp add: js_def)

lemma js_Cons: "js (c # cs) = of_char c # js cs"
  by (simp add: js_def)

lemma js_eq_Nil [simp]: "js a = [] \<longleftrightarrow> a = []" "[] = js a \<longleftrightarrow> a = []"
  by (auto simp add: js_def)

section \<open>The extractor and the listing loop never throw\<close>

lemma star_greedy_result: "star_greedy P s k = Some r \<Longrightarrow> \<exists>s'. k s' = Some r"
  by (induction s) (auto split: if_splits option.splits)

lemma star_lazy_result: "star_lazy P s k = Some r \<Longrightarrow> \<exists>s'. k s' = Some r"
  by (induction s) (auto split: if_splits option.splits)

lemma rx_match_result:
  "rx_match r s g k = Some x \<Longrightarrow>
   \<exists>s' g'. k s' g' = Some x \<and> (caps r \<or> g \<noteq> None \<longrightarrow> g' \<noteq> None)"
proof (induction r arbitrary: s g k)
  case (Seq a b)
  from Seq.prems have "rx_match a s g (\<lambda>s' g'. rx_match b s' g' k) = Some x" by simp
  from Seq.IH(1) [OF this] obtain s1 g1 where
    1: "rx_match b s1 g1 k = Some x" and 2: "caps a \<or> g \<noteq> None \<longrightarrow> g1 \<noteq> None" by blast
  from Seq.IH(2) [OF 1] obtain s2 g2 where
    "k s2 g2 = Some x" "caps b \<or> g1 \<noteq> None \<longrightarrow> g2 \<noteq> None" by blast
  with 2 show ?case by (intro exI [of _ s2] exI [of _ g2]) auto
next
  case (Alt a b)
  then show ?case by (fastforce split: option.splits)
next
  case (Opt a)
  then show ?case by (fastforce split: option.splits)
next
  case (Star P)
  then have "star_greedy P s (\<lambda>s'. k s' g) = Some x" by simp
  from star_greedy_result [OF this] obtain s' where "k s' g = Some x" by blast
  then show ?case by (intro exI [of _ s'] exI [of _ g]) auto
next
  case (Plus P)
  then obtain cs where "star_greedy P cs (\<lambda>s'. k s' g) = Some x"
    by (auto split: list.splits if_splits)
  from star_greedy_result [OF this] obtain s' where "k s' g = Some x" by blast
  then show ?case by (intro exI [of _ s'] exI [of _ g]) auto
next
  case (PlusLazy P)
  then obtain cs where "star_lazy P cs (\<lambda>s'. k s' g) = Some x"
    by (auto split: list.splits if_splits)
  from star_lazy_result [OF this] obtain s' where "k s' g = Some x" by blast
  then show ?case by (intro exI [of _ s'] exI [of _ g]) auto
next
  case (Group a)
  from Group.prems have
    "rx_match a s g (\<lambda>s' g'. k s' (Some (take (length s - length s') s))) = Some x" by simp
  from Group.IH [OF this] show ?case by auto
qed (auto split: list.splits if_splits)

lemma rx_at_caps: "caps r \<Longrightarrow> rx_at r s \<noteq> Some None"
  unfolding rx_at_def using rx_match_result [of r s None "\<lambda>s' g. Some g" None] by auto

lemma rx_search_caps: "caps r \<Longrightarrow> rx_search r s \<noteq> Some None"
proof (induction s)
  case Nil
  then show ?case using rx_at_caps [of r "[]"] by simp
next
  case (Cons a s)
  then show ?case using rx_at_caps [of r "a # s"] by (auto split: option.splits)
qed

lemma extract_loop_total:
  "\<forall>(k, r) \<in> set ps. caps r \<Longrightarrow> \<exists>e. extract_loop ps raw acc = Inr e"
proof (induction ps arbitrary: acc)
  case Nil
  then show ?case by simp
next
  case (Cons p ps)
  obtain k r where p: "p = (k, r)" by (cases p)
  with Cons.prems have c: "caps r" and rest: "\<forall>(k, r) \<in> set ps. caps r" by auto
  show ?case
  proof (cases "rx_search r raw")
    case None
    with p Cons.IH [OF rest] show ?thesis by simp
  next
    case (Some g)
    with rx_search_caps [OF c, of raw] obtain m where "g = Some m" by (cases g) auto
    with Some p Cons.IH [OF rest] show ?thesis by simp
  qed
qed

lemma caps_labelled [simp]: "caps (labelled ls t)"
  by (simp add: labelled_def)

lemma caps_price [simp]: "caps price_rx"
  by (simp add: price_rx_def)

lemma extractProductInfo_total: "\<exists>e. extractProductInfo raw = Inr e"
  unfolding extractProductInfo_def
  by (rule extract_loop_total) (simp add: patterns_def)

lemma platforms_known: "set (platforms (analyzeMessage lc m)) \<subseteq> set marketplaces"
  by (simp add: analyzeMessage_def Let_def marketplaces_def)

lemma generate_known:
  "p \<in> set marketplaces \<Longrightarrow> \<exists>l. generatePlatformListing now ex p = Inr l"
  by (auto simp: marketplaces_def generatePlatformListing_def PLATFORM_FIELDS_def Let_def)

lemma listings_loop_total:
  "set ps \<subseteq> set marketplaces \<Longrightarrow> \<exists>row. listings_loop clock ex ps i acc = Inr row"
proof (induction ps arbitrary: i acc)
  case Nil
  then show ?case by simp
next
  case (Cons p ps)
  then obtain l where "generatePlatformListing (clock i) ex p = Inr l"
    using generate_known [of p "clock i" ex] by auto
  with Cons show ?case by simp
qed


lemma fields_of_known: "p \<in> set marketplaces \<Longrightarrow> \<exists>flds. fields_of p = Inr flds"
  by (auto simp: marketplaces_def fields_of_def PLATFORM_FIELDS_def)

lemma map_result_total:
  "(\<And>x. x \<in> set xs \<Longrightarrow> \<exists>y. f x = Inr y) \<Longrightarrow> \<exists>ys. map_result f xs = Inr ys"
proof (induction xs)
  case Nil
  show ?case by simp
next
  case (Cons x xs)
  obtain y where y: "f x = Inr y"
    using Cons.prems [of x] by auto
  obtain ys where ys: "map_result f xs = Inr ys"
    using Cons.IH Cons.prems by auto
  from y ys show ?case by simp
qed

lemma catalog_processed_total:
  assumes "set ps \<subseteq> set marketplaces"
  shows "\<exists>r. catalog_processed ps ex = Inr r"
proof -
  have "\<exists>y. filled_line p = Inr y" if "p \<in> set ps" for p
  proof -
    from that assms obtain flds where "fields_of p = Inr flds"
      using fields_of_known [of p] by auto
    then show ?thesis by (simp add: filled_line_def)
  qed
  then obtain filled where "map_result filled_line ps = Inr filled"
    using map_result_total [of ps filled_line] by auto
  then show ?thesis by (simp add: catalog_processed_def)
qed
section \<open>Facts about the matcher\<close>

lemma rx_match_str:
  "rx_match (str p) s g k = (if ci_prefix p s then k (drop (length p) s) g else None)"
proof (induction p arbitrary: s)
  case Nil
  show ?case by simp
next
  case (Cons c cs)
  show ?case
    by (cases s) (simp_all add: Cons.IH)
qed

lemma rx_match_labels_none:
  "ls \<noteq> [] \<Longrightarrow> \<not> label_at ls s \<Longrightarrow> rx_match (alts (map (\<lambda>l. str (js l)) ls)) s g k = None"
proof (induction ls)
  case Nil
  then show ?case by simp
next
  case (Cons l ls)
  show ?case
  proof (cases ls)
    case Nil
    with Cons.prems show ?thesis
      by (simp add: label_at_def rx_match_str)
  next
    case (Cons l' ls')
    with Cons.prems Cons.IH show ?thesis
      by (simp add: label_at_def rx_match_str)
  qed
qed

lemma rx_match_labels_first:
  "ci_prefix (js l) s \<Longrightarrow> \<not> label_at ls1 s \<Longrightarrow> k (drop (length l) s) g = Some x \<Longrightarrow>
   rx_match (alts (map (\<lambda>l. str (js l)) (ls1 @ l # ls2))) s g k = Some x"
proof (induction ls1)
  case Nil
  then show ?case
    by (cases ls2) (simp_all add: rx_match_str js_def)
next
  case (Cons a ls1)
  from Cons.prems have na: "\<not> ci_prefix (js a) s" and n1: "\<not> label_at ls1 s"
    by (simp_all add: label_at_def)
  from Cons.IH [OF Cons.prems(1) n1 Cons.prems(3)] na show ?case
    by (cases ls1) (simp_all add: rx_match_str)
qed

text \<open>A pattern that begins with an alternation of labels matches only where a label begins.\<close>

lemma rx_at_headed_none:
  "ls \<noteq> [] \<Longrightarrow> \<not> label_at ls s \<Longrightarrow> rx_at (Seq (alts (map (\<lambda>l. str (js l)) ls)) r) s = None"
  by (simp add: rx_at_def rx_match_labels_none)

lemma rx_search_skip:
  assumes "ls \<noteq> []" and "\<not> label_before ls pre t"
  shows "rx_search (Seq (alts (map (\<lambda>l. str (js l)) ls)) r) (pre @ t) =
         rx_search (Seq (alts (map (\<lambda>l. str (js l)) ls)) r) t"
  using assms(2)
proof (induction pre)
  case Nil
  show ?case by simp
next
  case (Cons c cs)
  then have "\<not> label_at ls (c # cs @ t)" and "\<not> label_before ls cs t"
    by simp_all
  with Cons.IH rx_at_headed_none [OF assms(1), of "c # cs @ t" r] show ?case
    by simp
qed

lemma rx_search_at:
  "rx_at r s = Some x \<Longrightarrow> rx_search r s = Some x"
  by (cases s) simp_all

lemma sep_is_sep: "sep = Plus is_sep"
  by (simp add: sep_def is_sep_def [abs_def])

lemma star_greedy_run:
  "list_all P cs \<Longrightarrow> s = [] \<or> \<not> P (hd s) \<Longrightarrow> k s = Some x \<Longrightarrow>
   star_greedy P (cs @ s) k = Some x"
proof (induction cs)
  case Nil
  then show ?case by (cases s) auto
next
  case (Cons c cs)
  then show ?case by simp
qed

lemma rx_match_sep_run:
  "cs \<noteq> [] \<Longrightarrow> list_all is_sep cs \<Longrightarrow> s = [] \<or> \<not> is_sep (hd s) \<Longrightarrow> k s g = Some x \<Longrightarrow>
   rx_match sep (cs @ s) g k = Some x"
  by (cases cs) (simp_all add: sep_is_sep star_greedy_run)

lemma star_lazy_run:
  "list_all P v \<Longrightarrow> \<forall>i < length v. k (drop i v @ rest) = None \<Longrightarrow> k rest = Some x \<Longrightarrow>
   star_lazy P (v @ rest) k = Some x"
proof (induction v)
  case Nil
  then show ?case by (cases rest) simp_all
next
  case (Cons c v)
  from Cons.prems(2) have 0: "k (c # v @ rest) = None"
    by (metis append_Cons drop0 length_greater_0_conv list.distinct(1))
  have "\<forall>i < length v. k (drop i v @ rest) = None"
  proof (intro allI impI)
    fix i assume "i < length v"
    then have "Suc i < length (c # v)" by simp
    with Cons.prems(2) have "k (drop (Suc i) (c # v) @ rest) = None" by blast
    then show "k (drop i v @ rest) = None" by simp
  qed
  with Cons.IH Cons.prems have "star_lazy P (v @ rest) k = Some x" by simp
  with 0 Cons.prems(1) show ?case by simp
qed

lemma canonicalize_eq_10 [simp]: "canonicalize d = canonicalize 10 \<longleftrightarrow> d = 10"
  by (auto simp: canonicalize_def)

text \<open>
  The lazy group \<open>(.+?)\<close> in front of a terminator \<open>t\<close> that needs a line feed or the end of
  the input first: on a run \<open>v\<close> of characters of the dot class, it captures the whole of
  \<open>v\<close> when \<open>t\<close> matches after it.
\<close>

lemma rx_match_lazy_group:
  assumes v: "v \<noteq> []" "list_all is_dot v"
    and t_inside: "\<And>c s g. is_dot c \<Longrightarrow> rx_match t (c # s) g (\<lambda>s' g. Some g) = None"
    and t_end: "\<And>g. rx_match t rest g (\<lambda>s' g. Some g) = Some g"
  shows "rx_match (Seq (Group (PlusLazy is_dot)) t) (v @ rest) g0 (\<lambda>s' g. Some g) = Some (Some v)"
proof -
  obtain c v' where cv: "v = c # v'"
    using v(1) by (cases v) auto
  let ?s = "v @ rest"
  let ?K = "\<lambda>s'. rx_match t s' (Some (take (length ?s - length s') ?s)) (\<lambda>s' g. Some g)"
  have inside: "\<forall>i < length v'. ?K (drop i v' @ rest) = None"
  proof (intro allI impI)
    fix i assume i: "i < length v'"
    then obtain d ds where d: "drop i v' = d # ds"
      by (cases "drop i v'") auto
    then have "d \<in> set v'"
      by (metis in_set_dropD list.set_intros(1))
    with v(2) cv have "is_dot d"
      by (simp add: list_all_iff)
    with d show "?K (drop i v' @ rest) = None"
      by (simp add: t_inside)
  qed
  have "?K rest = Some (Some (take (length ?s - length rest) ?s))"
    by (rule t_end)
  then have last: "?K rest = Some (Some v)"
    by simp
  from v(2) cv have "list_all is_dot v'" by simp
  from star_lazy_run [OF this inside last] have "star_lazy is_dot (v' @ rest) ?K = Some (Some v)" .
  with v(2) cv show ?thesis
    by simp
qed

lemma line_end_inside: "is_dot c \<Longrightarrow> rx_match line_end (c # s) g (\<lambda>s' g. Some g) = None"
  by (simp add: line_end_def is_dot_def)

lemma line_end_end:
  "rest = [] \<or> hd rest = 10 \<Longrightarrow> rx_match line_end rest g (\<lambda>s' g. Some g) = Some g"
  by (cases rest) (auto simp: line_end_def)

lemma ci_prefix_append: "map canonicalize occ = map canonicalize p \<Longrightarrow> ci_prefix p (occ @ s)"
proof (induction p arbitrary: occ)
  case Nil
  then show ?case by simp
next
  case (Cons c p)
  then obtain d occ' where "occ = d # occ'" by (cases occ) auto
  with Cons show ?case by simp
qed

lemma ci_prefix_comparable: "ci_prefix a s \<Longrightarrow> ci_prefix b s \<Longrightarrow> ci_prefix a b \<or> ci_prefix b a"
proof (induction a s arbitrary: b rule: ci_prefix.induct)
  case (1 s)
  then show ?case by simp
next
  case (2 c cs)
  then show ?case by simp
next
  case (3 c cs d ds)
  show ?case
  proof (cases b)
    case Nil
    then show ?thesis by simp
  next
    case (Cons e es)
    with 3 show ?thesis by auto
  qed
qed

text \<open>
  A labelled line pattern at the start of \<open>occ @ cs @ v @ rest\<close>: \<open>occ\<close> is the label \<open>l\<close>
  in any letter case, \<open>cs\<close> a run of separator characters, \<open>v\<close> the rest of a line that
  begins with no separator character, and \<open>rest\<close> is empty or begins with a line feed.
\<close>

lemma rx_at_labelled:
  assumes l: "map canonicalize occ = map canonicalize (js l)"
    and first: "\<not> label_at ls1 (occ @ cs @ v @ rest)"
    and cs: "cs \<noteq> []" "list_all is_sep cs"
    and v: "v \<noteq> []" "list_all is_dot v" "\<not> is_sep (hd v)"
    and rest: "rest = [] \<or> hd rest = 10"
  shows "rx_at (labelled (ls1 @ l # ls2) line_end) (occ @ cs @ v @ rest) = Some (Some v)"
proof -
  have len: "length occ = length l"
    using l by (metis length_map js_def)
  let ?k3 = "\<lambda>s g. rx_match (Seq (Group (PlusLazy is_dot)) line_end) s g (\<lambda>s' g. Some g)"
  have 3: "?k3 (v @ rest) None = Some (Some v)"
    by (rule rx_match_lazy_group [OF v(1,2) line_end_inside line_end_end [OF rest]])
  have "v @ rest = [] \<or> \<not> is_sep (hd (v @ rest))"
    using v(1,3) by simp
  from rx_match_sep_run [OF cs this, of ?k3, OF 3]
  have 2: "rx_match sep (cs @ v @ rest) None ?k3 = Some (Some v)" .
  have "drop (length l) (occ @ cs @ v @ rest) = cs @ v @ rest"
    using len by simp
  with 2 have "(\<lambda>s g. rx_match sep s g ?k3) (drop (length l) (occ @ cs @ v @ rest)) None = Some (Some v)"
    by simp
  from rx_match_labels_first [OF ci_prefix_append [OF l] first, of "\<lambda>s g. rx_match sep s g ?k3", OF this]
  show ?thesis
    by (simp add: rx_at_def labelled_def)
qed

lemma extract_loop_lookup:
  "extract_loop ps raw acc = Inr e \<Longrightarrow> distinct (map fst ps) \<Longrightarrow>
   map_of e key =
     (case map_of ps key of
        None \<Rightarrow> map_of acc key
      | Some r \<Rightarrow> (case rx_search r raw of Some (Some m) \<Rightarrow> Some (trim m) | _ \<Rightarrow> map_of acc key))"
proof (induction ps arbitrary: acc)
  case Nil
  then show ?case by simp
next
  case (Cons p ps)
  obtain k r where p: "p = (k, r)" by (cases p)
  from Cons.prems(2) p have d: "distinct (map fst ps)" and nk: "map_of ps k = None"
    by (auto simp: map_of_eq_None_iff)
  show ?case
  proof (cases "rx_search r raw")
    case None
    with Cons.prems(1) p have "extract_loop ps raw acc = Inr e" by simp
    from Cons.IH [OF this d] None p nk show ?thesis by simp
  next
    case (Some g)
    show ?thesis
    proof (cases g)
      case None
      with Some Cons.prems(1) p show ?thesis by simp
    next
      case (Some m)
      with \<open>rx_search r raw = Some g\<close> Cons.prems(1) p
      have "extract_loop ps raw (AList.update k (trim m) acc) = Inr e" by simp
      from Cons.IH [OF this d] Some \<open>rx_search r raw = Some g\<close> p nk show ?thesis
        by (auto simp: update_conv' split: option.splits)
    qed
  qed
qed

lemma patterns_distinct: "distinct (map fst patterns)"
  by (simp add: patterns_def)

lemma extract_field:
  assumes "map_of patterns key = Some r" and "rx_search r raw = Some (Some m)"
  shows "\<exists>e. extractProductInfo raw = Inr e \<and> map_of e key = Some (trim m)"
proof -
  obtain e where e: "extractProductInfo raw = Inr e"
    using extractProductInfo_total by blast
  then have "extract_loop patterns raw [] = Inr e"
    by (simp add: extractProductInfo_def)
  from extract_loop_lookup [OF this patterns_distinct, of key] assms have "map_of e key = Some (trim m)"
    by simp
  with e show ?thesis by blast
qed

lemma extract_field_absent:
  assumes "map_of patterns key = Some r" and "rx_search r raw = None"
  shows "\<exists>e. extractProductInfo raw = Inr e \<and> map_of e key = None"
proof -
  obtain e where e: "extractProductInfo raw = Inr e"
    using extractProductInfo_total by blast
  then have "extract_loop patterns raw [] = Inr e"
    by (simp add: extractProductInfo_def)
  from extract_loop_lookup [OF this patterns_distinct, of key] assms have "map_of e key = None"
    by simp
  with e show ?thesis by blast
qed

lemma labelled_headed:
  "labelled ls t = Seq (alts (map (\<lambda>l. str (js l)) ls)) (Seq sep (Seq (Group (PlusLazy is_dot)) t))"
  by (simp add: labelled_def)

lemma label_at_prefix_free:
  assumes pf: "prefix_free ls" and l: "l \<in> set ls" and c: "ci_prefix (js l) s"
    and l': "l' \<in> set ls" "l' \<noteq> l"
  shows "\<not> ci_prefix (js l') s"
proof
  assume "ci_prefix (js l') s"
  from ci_prefix_comparable [OF this c] have "ci_prefix (js l') (js l) \<or> ci_prefix (js l) (js l')" .
  with pf l l' show False
    by (auto simp: prefix_free_def)
qed

text \<open>
  The extraction of one line field, at the first place where one of its labels begins.
\<close>

lemma line_field_captured:
  assumes pat: "map_of patterns (js key) = Some (labelled ls line_end)"
    and pf: "prefix_free ls"
    and l: "l \<in> set ls" "map canonicalize occ = map canonicalize (js l)"
    and cs: "cs \<noteq> []" "list_all is_sep cs"
    and v: "v \<noteq> []" "list_all is_dot v" "\<not> is_sep (hd v)"
    and rest: "rest = [] \<or> hd rest = 10"
    and pre: "\<not> label_before ls pre (occ @ cs @ v @ rest)"
  shows "\<exists>e. extractProductInfo (pre @ occ @ cs @ v @ rest) = Inr e \<and>
             map_of e (js key) = Some (trim v)"
proof -
  let ?t = "occ @ cs @ v @ rest"
  from split_list_first [OF l(1)] obtain ls1 ls2 where ls: "ls = ls1 @ l # ls2" and n: "l \<notin> set ls1"
    by blast
  have c: "ci_prefix (js l) ?t"
    by (rule ci_prefix_append [OF l(2)])
  have "\<not> ci_prefix (js l') ?t" if "l' \<in> set ls1" for l'
  proof -
    from that n ls have "l' \<in> set ls" "l' \<noteq> l" by auto
    from label_at_prefix_free [OF pf l(1) c this] show ?thesis .
  qed
  then have first: "\<not> label_at ls1 ?t"
    by (auto simp: label_at_def list_ex_iff)
  have at: "rx_at (labelled ls line_end) ?t = Some (Some v)"
    unfolding ls by (rule rx_at_labelled [OF l(2) first cs v rest])
  have ne: "ls \<noteq> []"
    using l(1) by auto
  have "rx_search (labelled ls line_end) (pre @ ?t) = rx_search (labelled ls line_end) ?t"
    unfolding labelled_headed by (rule rx_search_skip [OF ne pre])
  with rx_search_at [OF at] have "rx_search (labelled ls line_end) (pre @ ?t) = Some (Some v)"
    by simp
  from extract_field [OF pat this] show ?thesis .
qed

section \<open>The patterns of the line fields\<close>

lemma line_patterns:
  "map_of patterns (js ''name'') = Some (labelled [''product name'', ''name'', ''title''] line_end)"
  "map_of patterns (js ''brand'') = Some (labelled [''brand'', ''manufacturer''] line_end)"
  "map_of patterns (js ''category'') = Some (labelled [''category'', ''type''] line_end)"
  "map_of patterns (js ''size'') = Some (labelled [''size''] line_end)"
  "map_of patterns (js ''color'') = Some (labelled [''color'', ''colour''] line_end)"
  "map_of patterns (js ''material'') = Some (labelled [''material'', ''fabric''] line_end)"
  "map_of patterns (js ''weight'') = Some (labelled [''weight''] line_end)"
  "map_of patterns (js ''sku'') = Some (labelled [''sku'', ''product id'', ''item code''] line_end)"
  by (simp_all add: patterns_def)

lemma line_fields_patterns:
  "(key, ls) \<in> set line_fields \<Longrightarrow> map_of patterns (js key) = Some (labelled ls line_end)"
  unfolding line_fields_def by (auto simp: line_patterns)

lemma ci_prefix_js_simps:
  "ci_prefix (js (c # cs)) (js (d # ds)) =
     (canonicalize (of_char d) = canonicalize (of_char c) \<and> ci_prefix (js cs) (js ds))"
  "ci_prefix (js (c # cs)) (js []) = False"
  "ci_prefix (js []) s = True"
  by (simp_all add: js_def)

lemma line_labels_prefix_free:
  "prefix_free [''product name'', ''name'', ''title'']"
  "prefix_free [''brand'', ''manufacturer'']"
  "prefix_free [''category'', ''type'']"
  "prefix_free [''size'']"
  "prefix_free [''color'', ''colour'']"
  "prefix_free [''material'', ''fabric'']"
  "prefix_free [''weight'']"
  "prefix_free [''sku'', ''product id'', ''item code'']"
  by (simp_all add: prefix_free_def ci_prefix_js_simps canonicalize_def)

lemma line_fields_prefix_free:
  "(key, ls) \<in> set line_fields \<Longrightarrow> prefix_free ls"
  unfolding line_fields_def by (auto simp: line_labels_prefix_free)

lemmas eval_extract = extractProductInfo_def patterns_def labelled_def price_rx_def sep_def
  line_end_def rx_at_def js_def is_space_def is_dot_def is_digit_def canonicalize_def trim_def

section \<open>Evaluating the price and its mark-up\<close>

lemma floor_rat_numeral [simp]: "\<lfloor>numeral a / numeral b :: rat\<rfloor> = numeral a div numeral b"
  by (metis floor_divide_of_int_eq of_int_numeral)

lemma ceiling_rat_numeral [simp]:
  "\<lceil>numeral a / numeral b :: rat\<rceil> = - (- numeral a div numeral b)"
  by (metis ceiling_def floor_divide_of_int_eq minus_divide_left of_int_minus of_int_numeral)

lemmas eval_round = round_double_def round_pos_def ilog2_def round_half_even_def pow2_def
  bitlen.simps Let_def

lemmas eval_parse = parseFloat_def digits_value_def starts_with_def exponent_part_def pow10_def
  is_space_def is_digit_def js_def Let_def

lemma literal_1_2: "round_double (12 / 10) = Fin (5404319552844595 / 4503599627370496)"
  by (simp add: eval_round)

lemma parse_500: "parseFloat (js ''500'') = Fin 500"
  by (simp add: eval_parse) (simp add: eval_round)

lemma times_500: "js_times (Fin 500) (Fin (5404319552844595 / 4503599627370496)) = Fin 600"
  by (simp add: js_times_def eval_round)

lemma fixed_600: "toFixed 2 (Fin 600) = js ''600.00''"
  by (simp add: toFixed_def Let_def) (simp add: show_nat_def show_digits.simps js_def)

lemma mrp_of_500:
  "toFixed 2 (js_times (parseFloat (js ''500'')) (round_double (12 / 10))) = js ''600.00''"
  by (simp only: parse_500 literal_1_2 times_500 fixed_600)

lemma parse_5000: "parseFloat (js ''5000'') = Fin 5000"
  by (simp add: eval_parse) (simp add: eval_round)

lemma times_5000: "js_times (Fin 5000) (Fin (5404319552844595 / 4503599627370496)) = Fin 6000"
  by (simp add: js_times_def eval_round)

lemma fixed_6000: "toFixed 2 (Fin 6000) = js ''6000.00''"
  by (simp add: toFixed_def Let_def) (simp add: show_nat_def show_digits.simps js_def)

lemma mrp_of_5000:
  "toFixed 2 (js_times (parseFloat (js ''5000'')) (round_double (12 / 10))) = js ''6000.00''"
  by (simp only: parse_5000 literal_1_2 times_5000 fixed_6000)

lemma fieldMapping_MRP:
  "map_of (fieldMapping now ex) (js ''MRP'') =
     Some (case map_of ex (js ''price'') of
             None \<Rightarrow> []
           | Some p \<Rightarrow>
               if p = [] then []
               else toFixed 2 (js_times (parseFloat p) (round_double (12 / 10))))"
  by (simp add: fieldMapping_def Let_def or_else_def split: option.splits)

lemma price_pattern: "map_of patterns (js ''price'') = Some price_rx"
  by (simp add: patterns_def)

lemma price_headed:
  "price_rx = Seq (alts (map (\<lambda>l. str (js l)) [''price'', ''selling price'', ''mrp'']))
     (seqs [sep, Opt (Alt (seqs [str (js ''rs''), Opt (Lit 46)]) (str [226, 8218, 185])),
            Star is_space,
            Group (Seq (Plus is_digit) (Opt (Seq (Lit 46) (Plus is_digit))))])"
  by (simp add: price_rx_def)

lemma canonicalize_eq_46 [simp]: "canonicalize d = canonicalize 46 \<longleftrightarrow> d = 46"
  by (auto simp: canonicalize_def)

lemma canonicalize_is_46 [simp]: "canonicalize d = 46 \<longleftrightarrow> d = 46"
  by (auto simp: canonicalize_def)

lemmas eval_chars =
  canonicalize_def [of "numeral n" for n] is_digit_def [of "numeral n" for n]
  is_space_def [of "numeral n" for n] is_dot_def [of "numeral n" for n]

lemma price_at_500:
  assumes "number_ends rest"
  shows "rx_at price_rx (js ''Price: 500'' @ rest) = Some (Some (js ''500''))"
proof (cases rest)
  case Nil
  then show ?thesis
    by (simp add: price_rx_def rx_at_def sep_def js_def eval_chars)
next
  case (Cons c r)
  with assms have c: "\<not> is_digit c" and d: "c = 46 \<longrightarrow> (case r of [] \<Rightarrow> True | d # _ \<Rightarrow> \<not> is_digit d)"
    by (simp_all add: number_ends_def)
  show ?thesis
  proof (cases "c = 46")
    case False
    with c Cons show ?thesis
      by (simp add: price_rx_def rx_at_def sep_def js_def eval_chars)
  next
    case True
    show ?thesis
    proof (cases r)
      case Nil
      with True Cons show ?thesis
        by (simp add: price_rx_def rx_at_def sep_def js_def eval_chars)
    next
      case (Cons d r')
      with True d have "\<not> is_digit d" by simp
      with True Cons \<open>rest = c # r\<close> show ?thesis
        by (simp add: price_rx_def rx_at_def sep_def js_def eval_chars)
    qed
  qed
qed

lemma price_500_extracted:
  assumes "\<not> label_before [''price'', ''selling price'', ''mrp''] pre (js ''Price: 500'' @ rest)"
    and "number_ends rest"
  shows "\<exists>e. extractProductInfo (pre @ js ''Price: 500'' @ rest) = Inr e \<and>
             map_of e (js ''price'') = Some (js ''500'')"
proof -
  let ?t = "js ''Price: 500'' @ rest"
  have "rx_search price_rx (pre @ ?t) = rx_search price_rx ?t"
    unfolding price_headed by (rule rx_search_skip [OF _ assms(1)]) simp
  with rx_search_at [OF price_at_500 [OF assms(2)]]
  have "rx_search price_rx (pre @ ?t) = Some (Some (js ''500''))"
    by simp
  from extract_field [OF price_pattern this] show ?thesis
    by (simp add: trim_def js_def is_space_def)
qed

section \<open>The shape of a listing\<close>

lemma update_fresh: "k \<notin> fst ` set al \<Longrightarrow> AList.update k v al = al @ [(k, v)]"
  by (induction al) auto

lemma fold_required:
  "distinct (map (listing_key p) fs) \<Longrightarrow> \<forall>f \<in> set fs. listing_key p f \<notin> fst ` set acc \<Longrightarrow>
   fold (fill_required fm p) fs acc =
     acc @ map (\<lambda>f. (listing_key p f, or_else (map_of fm f) (js ''[REQUIRED]''))) fs"
proof (induction fs arbitrary: acc)
  case Nil
  then show ?case by simp
next
  case (Cons f fs)
  let ?acc = "acc @ [(listing_key p f, or_else (map_of fm f) (js ''[REQUIRED]''))]"
  have 1: "fill_required fm p f acc = ?acc"
    using Cons.prems by (simp add: fill_required_def update_fresh)
  have 2: "\<forall>f' \<in> set fs. listing_key p f' \<notin> fst ` set ?acc"
    using Cons.prems by (auto simp: image_iff)
  from Cons.prems have "distinct (map (listing_key p) fs)" by simp
  from Cons.IH [OF this 2] 1 show ?case by simp
qed

lemma fold_optional:
  "distinct (map (listing_key p) fs) \<Longrightarrow> \<forall>f \<in> set fs. listing_key p f \<notin> fst ` set acc \<Longrightarrow>
   fold (fill_optional fm p) fs acc =
     acc @ map (\<lambda>f. (listing_key p f, or_else (map_of fm f) []))
             (filter (\<lambda>f. or_else (map_of fm f) [] \<noteq> []) fs)"
proof (induction fs arbitrary: acc)
  case Nil
  then show ?case by simp
next
  case (Cons f fs)
  from Cons.prems have d: "distinct (map (listing_key p) fs)" by simp
  show ?case
  proof (cases "or_else (map_of fm f) [] = []")
    case True
    then have 1: "fill_optional fm p f acc = acc"
      by (simp add: fill_optional_def)
    have 2: "\<forall>f' \<in> set fs. listing_key p f' \<notin> fst ` set acc"
      using Cons.prems by auto
    from Cons.IH [OF d 2] 1 True show ?thesis by simp
  next
    case False
    let ?acc = "acc @ [(listing_key p f, or_else (map_of fm f) [])]"
    have 1: "fill_optional fm p f acc = ?acc"
      using Cons.prems False by (simp add: fill_optional_def update_fresh)
    have 2: "\<forall>f' \<in> set fs. listing_key p f' \<notin> fst ` set ?acc"
      using Cons.prems by (auto simp: image_iff)
    from Cons.IH [OF d 2] 1 False show ?thesis by simp
  qed
qed

lemma listing_key_eq:
  "listing_key p f = listing_key p f' \<longleftrightarrow> replace_spaces f = replace_spaces f'"
  by (simp add: listing_key_def)

lemma platform_cases:
  "(p, flds) \<in> set PLATFORM_FIELDS \<Longrightarrow> map_of PLATFORM_FIELDS p = Some flds"
  by (auto simp: PLATFORM_FIELDS_def)

lemma labels_distinct:
  "(p, flds) \<in> set PLATFORM_FIELDS \<Longrightarrow>
   distinct (map replace_spaces (required flds @ optional flds))"
  by (auto simp: PLATFORM_FIELDS_def js_def is_space_def)

lemma keys_distinct:
  "(p, flds) \<in> set PLATFORM_FIELDS \<Longrightarrow>
   distinct (map (listing_key p) (required flds @ optional flds))"
  using labels_distinct [of p flds]
  by (simp add: distinct_map inj_on_def listing_key_eq del: map_append)

lemma listing_explicit:
  assumes "(p, flds) \<in> set PLATFORM_FIELDS"
  shows "generatePlatformListing now ex p =
     Inr (map (\<lambda>f. (listing_key p f,
                     or_else (map_of (fieldMapping now ex) f) (js ''[REQUIRED]'')))
            (required flds) @
          map (\<lambda>f. (listing_key p f, or_else (map_of (fieldMapping now ex) f) []))
            (filter (\<lambda>f. or_else (map_of (fieldMapping now ex) f) [] \<noteq> []) (optional flds)))"
proof -
  let ?fm = "fieldMapping now ex"
  let ?R = "map (\<lambda>f. (listing_key p f, or_else (map_of ?fm f) (js ''[REQUIRED]''))) (required flds)"
  from keys_distinct [OF assms] have
    d1: "distinct (map (listing_key p) (required flds))" and
    d2: "distinct (map (listing_key p) (optional flds))" and
    d3: "\<forall>f \<in> set (optional flds). listing_key p f \<notin> listing_key p ` set (required flds)"
    by auto
  have r: "fold (fill_required ?fm p) (required flds) [] = ?R"
    using fold_required [OF d1, of "[]" ?fm] by simp
  have "\<forall>f \<in> set (optional flds). listing_key p f \<notin> fst ` set ?R"
    using d3 by (auto simp: image_iff)
  from fold_optional [OF d2 this] r platform_cases [OF assms] show ?thesis
    by (simp add: generatePlatformListing_def Let_def)
qed

lemma count_list_distinct:
  "distinct xs \<Longrightarrow> count_list xs x = (if x \<in> set xs then 1 else 0)"
  by (induction xs) auto

lemma map_of_pairs:
  "distinct (map k fs) \<Longrightarrow> f \<in> set fs \<Longrightarrow> map_of (map (\<lambda>f. (k f, v f)) fs) (k f) = Some (v f)"
  by (induction fs) (auto simp: image_iff)

lemma map_of_pairs_none:
  "k f \<notin> k ` set fs \<Longrightarrow> map_of (map (\<lambda>f. (k f, v f)) fs) (k f) = None"
  by (induction fs) auto

lemma two_part_record:
  fixes k :: "'f \<Rightarrow> 'k"
  assumes d: "distinct (map k (Rs @ Os))"
    and L: "L = map (\<lambda>f. (k f, v f)) Rs @ map (\<lambda>f. (k f, w f)) (filter c Os)"
  shows "f \<in> set Rs \<Longrightarrow> count_list (map fst L) (k f) = 1 \<and> map_of L (k f) = Some (v f)"
    and "f \<in> set Os \<Longrightarrow>
           count_list (map fst L) (k f) = (if c f then 1 else 0) \<and>
           map_of L (k f) = (if c f then Some (w f) else None)"
    and "fst ` set L \<subseteq> k ` (set Rs \<union> set Os)"
proof -
  from d have d1: "distinct (map k Rs)" and d2: "distinct (map k Os)"
    and d3: "k ` set Rs \<inter> k ` set Os = {}"
    by auto
  have keys: "map fst L = map k Rs @ map k (filter c Os)"
    by (simp add: L comp_def)
  have dO: "distinct (map k (filter c Os))"
    using d2 by (rule distinct_map_filter)
  have dL: "distinct (map fst L)"
    unfolding keys using d1 dO d3 by auto
  have mo: "map_of L x = (case map_of (map (\<lambda>f. (k f, v f)) Rs) x of
               Some y \<Rightarrow> Some y | None \<Rightarrow> map_of (map (\<lambda>f. (k f, w f)) (filter c Os)) x)" for x
    by (simp add: L map_add_def split: option.splits)
  show "count_list (map fst L) (k f) = 1 \<and> map_of L (k f) = Some (v f)" if f: "f \<in> set Rs"
  proof -
    from f have "k f \<in> set (map fst L)"
      unfolding keys by simp
    with count_list_distinct [OF dL, of "k f"] have "count_list (map fst L) (k f) = 1"
      by simp
    moreover from map_of_pairs [OF d1 f, of v] mo [of "k f"] have "map_of L (k f) = Some (v f)"
      by simp
    ultimately show ?thesis ..
  qed
  show "count_list (map fst L) (k f) = (if c f then 1 else 0) \<and>
        map_of L (k f) = (if c f then Some (w f) else None)" if f: "f \<in> set Os"
  proof -
    from d3 f have nr: "k f \<notin> k ` set Rs" by auto
    from map_of_pairs_none [OF nr, of v] have r: "map_of (map (\<lambda>f. (k f, v f)) Rs) (k f) = None" .
    show ?thesis
    proof (cases "c f")
      case True
      with f have m: "f \<in> set (filter c Os)" by simp
      then have "k f \<in> set (map fst L)"
        unfolding keys by simp
      with count_list_distinct [OF dL, of "k f"] have "count_list (map fst L) (k f) = 1"
        by simp
      moreover from map_of_pairs [OF dO m, of w] mo [of "k f"] r
      have "map_of L (k f) = Some (w f)"
        by simp
      ultimately show ?thesis using True by simp
    next
      case False
      have no: "k f \<notin> k ` set (filter c Os)"
      proof
        assume "k f \<in> k ` set (filter c Os)"
        then obtain f' where f': "f' \<in> set Os" "c f'" "k f = k f'"
          by auto
        from d2 f f'(1) f'(3) have "f = f'"
          by (simp add: distinct_map inj_on_def)
        with f'(2) False show False by simp
      qed
      from map_of_pairs_none [OF no, of w] mo [of "k f"] r have "map_of L (k f) = None"
        by simp
      moreover from nr no have "k f \<notin> set (map fst L)"
        unfolding keys by simp
      then have "count_list (map fst L) (k f) = 0"
        by simp
      ultimately show ?thesis using False by simp
    qed
  qed
  show "fst ` set L \<subseteq> k ` (set Rs \<union> set Os)"
    unfolding L by (auto simp: image_iff)
qed

lemma or_else_Some_Nil [simp]: "or_else (Some s) [] = s"
  by (simp add: or_else_def)

lemma or_else_None [simp]: "or_else None d = d"
  by (simp add: or_else_def)

lemma or_else_nonempty: "d \<noteq> [] \<Longrightarrow> or_else v d \<noteq> []"
  by (simp add: or_else_def split: option.splits)

lemma or_else_twice: "or_else (Some (or_else v d)) e = (if or_else v d = [] then e else or_else v d)"
  by (simp add: or_else_def)

lemma show_digits_nonempty: "show_digits n acc \<noteq> []"
  by (induction n acc rule: show_digits.induct) (subst show_digits.simps, simp)

lemma show_nat_nonempty: "show_nat n \<noteq> []"
  by (simp add: show_nat_def show_digits_nonempty)

lemma fieldMapping_direct:
  "map_of (fieldMapping now ex) (js ''Product Name'') = Some (or_else (map_of ex (js ''name'')) [])"
  "map_of (fieldMapping now ex) (js ''Category'') = Some (or_else (map_of ex (js ''category'')) [])"
  "map_of (fieldMapping now ex) (js ''Price'') = Some (or_else (map_of ex (js ''price'')) [])"
  "map_of (fieldMapping now ex) (js ''Selling Price'') = Some (or_else (map_of ex (js ''price'')) [])"
  "map_of (fieldMapping now ex) (js ''Listing Price'') = Some (or_else (map_of ex (js ''price'')) [])"
  "map_of (fieldMapping now ex) (js ''Description'') = Some (or_else (map_of ex (js ''description'')) [])"
  "map_of (fieldMapping now ex) (js ''Product Description'') = Some (or_else (map_of ex (js ''description'')) [])"
  "map_of (fieldMapping now ex) (js ''Size'') = Some (or_else (map_of ex (js ''size'')) [])"
  "map_of (fieldMapping now ex) (js ''Color'') = Some (or_else (map_of ex (js ''color'')) [])"
  "map_of (fieldMapping now ex) (js ''Material'') = Some (or_else (map_of ex (js ''material'')) [])"
  "map_of (fieldMapping now ex) (js ''Weight'') = Some (or_else (map_of ex (js ''weight'')) [])"
  "map_of (fieldMapping now ex) (js ''Package Weight'') = Some (or_else (map_of ex (js ''weight'')) [])"
  by (simp_all add: fieldMapping_def Let_def)

lemma fieldMapping_Brand:
  "map_of (fieldMapping now ex) (js ''Brand'') =
     Some (or_else (map_of ex (js ''brand'')) (js ''Generic''))"
  by (simp add: fieldMapping_def Let_def)

lemma fieldMapping_unmapped:
  "map_of (fieldMapping now ex) (js ''Dimensions'') = None"
  "map_of (fieldMapping now ex) (js ''HSN Code'') = None"
  "map_of (fieldMapping now ex) (js ''GST'') = None"
  "map_of (fieldMapping now ex) (js ''Package Dimensions'') = None"
  "map_of (fieldMapping now ex) (js ''Return Policy'') = None"
  "map_of (fieldMapping now ex) (js ''Care Instructions'') = None"
  "map_of (fieldMapping now ex) (js ''Occasion'') = None"
  "map_of (fieldMapping now ex) (js ''Pattern'') = None"
  "map_of (fieldMapping now ex) (js ''Fit'') = None"
  by (simp_all add: fieldMapping_def Let_def)

lemma fieldMapping_off_ids:
  "f \<notin> {js ''SKU'', js ''Product ID'', js ''Style ID''} \<Longrightarrow>
   map_of (fieldMapping now1 ex) f = map_of (fieldMapping now2 ex) f"
  by (simp add: fieldMapping_def Let_def)

lemma fieldMapping_ids_truthy:
  "f \<in> {js ''SKU'', js ''Product ID'', js ''Style ID''} \<Longrightarrow>
   or_else (map_of (fieldMapping now ex) f) [] \<noteq> []"
  by (auto simp: fieldMapping_def Let_def or_else_twice or_else_nonempty show_nat_nonempty)

lemma fieldMapping_truthy:
  "(or_else (map_of (fieldMapping now1 ex) f) [] \<noteq> []) =
   (or_else (map_of (fieldMapping now2 ex) f) [] \<noteq> [])"
proof (cases "f \<in> {js ''SKU'', js ''Product ID'', js ''Style ID''}")
  case True
  then show ?thesis
    using fieldMapping_ids_truthy [of f now1 ex] fieldMapping_ids_truthy [of f now2 ex] by simp
next
  case False
  then show ?thesis
    using fieldMapping_off_ids [of f now1 ex now2] by simp
qed

lemma fieldMapping_with_sku:
  "or_else (map_of ex (js ''sku'')) [] \<noteq> [] \<Longrightarrow> fieldMapping now1 ex = fieldMapping now2 ex"
  by (simp add: fieldMapping_def Let_def or_else_def split: option.splits)

lemma map_of_pairs_cong:
  "\<forall>f \<in> set fs. k f = x \<longrightarrow> v1 f = v2 f \<Longrightarrow>
   map_of (map (\<lambda>f. (k f, v1 f)) fs) x = map_of (map (\<lambda>f. (k f, v2 f)) fs) x"
  by (induction fs) auto

lemma map_add_cong_at: "m1 x = n1 x \<Longrightarrow> m2 x = n2 x \<Longrightarrow> (m1 ++ m2) x = (n1 ++ n2) x"
  by (simp add: map_add_def split: option.splits)

lemmas eval_listing =
  generatePlatformListing_def PLATFORM_FIELDS_def fieldMapping_def Let_def fill_required_def
  fill_optional_def listing_key_def toUpperCase_def js_def or_else_def show_nat_def is_space_def


text \<open>
  The text of a key: the name of the platform in capitals, an underscore, and the label
  with every space replaced by an underscore (no label of the table holds two adjacent
  spaces or any other white space).
\<close>

lemma platform_is_marketplace: "(p, flds) \<in> set PLATFORM_FIELDS \<Longrightarrow> p \<in> set marketplaces"
proof -
  assume "(p, flds) \<in> set PLATFORM_FIELDS"
  then have "p \<in> fst ` set PLATFORM_FIELDS"
    by (rule image_eqI [rotated]) simp
  also have "fst ` set PLATFORM_FIELDS = set marketplaces"
    by (simp add: PLATFORM_FIELDS_def marketplaces_def)
  finally show ?thesis .
qed

lemma marketplace_cases:
  assumes "p \<in> set marketplaces"
  obtains "p = js ''amazon''" | "p = js ''flipkart''" | "p = js ''meesho''" | "p = js ''myntra''"
  using assms unfolding marketplaces_def by fastforce

lemma upper_simps:
  "toUpperCase (js ''amazon'') = js ''AMAZON''"
  "toUpperCase (js ''flipkart'') = js ''FLIPKART''"
  "toUpperCase (js ''meesho'') = js ''MEESHO''"
  "toUpperCase (js ''myntra'') = js ''MYNTRA''"
  by (simp_all add: toUpperCase_def js_def)

lemma upper_marketplaces:
  assumes "p \<in> set marketplaces"
  shows "(p, toUpperCase p) \<in> set [(js ''amazon'', js ''AMAZON''), (js ''flipkart'', js ''FLIPKART''),
                                     (js ''meesho'', js ''MEESHO''), (js ''myntra'', js ''MYNTRA'')]"
  using assms
proof (cases rule: marketplace_cases)
  case 1 show ?thesis unfolding 1 upper_simps by simp
next
  case 2 show ?thesis unfolding 2 upper_simps by simp
next
  case 3 show ?thesis unfolding 3 upper_simps by simp
next
  case 4 show ?thesis unfolding 4 upper_simps by simp
qed

lemma upper_names:
  "(p, flds) \<in> set PLATFORM_FIELDS \<Longrightarrow>
   (p, toUpperCase p) \<in> set [(js ''amazon'', js ''AMAZON''), (js ''flipkart'', js ''FLIPKART''),
                               (js ''meesho'', js ''MEESHO''), (js ''myntra'', js ''MYNTRA'')]"
  by (rule upper_marketplaces [OF platform_is_marketplace])

lemma label_underscored:
  "(p, flds) \<in> set PLATFORM_FIELDS \<Longrightarrow> f \<in> set (required flds) \<union> set (optional flds) \<Longrightarrow>
   replace_spaces f = map (\<lambda>c. if c = 32 then 95 else c) f"
  by (auto simp: PLATFORM_FIELDS_def js_def is_space_def)

lemma listing_key_text:
  "(p, flds) \<in> set PLATFORM_FIELDS \<Longrightarrow> f \<in> set (required flds) \<union> set (optional flds) \<Longrightarrow>
   listing_key p f = toUpperCase p @ js ''_'' @ map (\<lambda>c. if c = 32 then 95 else c) f"
  by (simp add: listing_key_def label_underscored)
section \<open>The merged row\<close>

text \<open>\<open>Object.assign\<close>: the keys of the source are written over the target, in order.\<close>

lemma assign_keys: "fst ` set (assign row l) = fst ` set row \<union> fst ` set l"
  unfolding assign_def
proof (induction l arbitrary: row)
  case Nil
  show ?case by simp
next
  case (Cons a l)
  obtain k v where a: "a = (k, v)" by (cases a)
  show ?case
    unfolding a by (simp add: Cons.IH dom_update)
qed

lemma assign_distinct: "distinct (map fst row) \<Longrightarrow> distinct (map fst (assign row l))"
  unfolding assign_def
proof (induction l arbitrary: row)
  case Nil
  then show ?case by simp
next
  case (Cons a l)
  obtain k v where a: "a = (k, v)" by (cases a)
  from Cons.prems have "distinct (map fst (AList.update k (Str v) row))"
    by (rule distinct_update)
  from Cons.IH [OF this] show ?case
    unfolding a by simp
qed

lemma assign_other: "k \<notin> fst ` set l \<Longrightarrow> map_of (assign row l) k = map_of row k"
  unfolding assign_def
proof (induction l arbitrary: row)
  case Nil
  show ?case by simp
next
  case (Cons a l)
  obtain k' v where a: "a = (k', v)" by (cases a)
  from Cons.prems a have ne: "k \<noteq> k'" and rest: "k \<notin> fst ` set l"
    by auto
  from Cons.IH [OF rest, of "AList.update k' (Str v) row"] ne show ?case
    unfolding a by (simp add: update_conv')
qed

lemma assign_entry:
  "distinct (map fst l) \<Longrightarrow> map_of l k = Some v \<Longrightarrow> map_of (assign row l) k = Some (Str v)"
proof (induction l arbitrary: row)
  case Nil
  then show ?case by simp
next
  case (Cons a l)
  obtain k' v' where a: "a = (k', v')" by (cases a)
  from Cons.prems(1) a have fresh: "k' \<notin> fst ` set l" and d: "distinct (map fst l)"
    by auto
  have step: "assign row (a # l) = assign (AList.update k' (Str v') row) l"
    unfolding a by (simp add: assign_def)
  show ?case
  proof (cases "k = k'")
    case True
    with Cons.prems(2) a have "v' = v" by simp
    with assign_other [OF fresh, of "AList.update k' (Str v') row"] True show ?thesis
      unfolding step by (simp add: update_conv')
  next
    case False
    with Cons.prems(2) a have "map_of l k = Some v" by simp
    from Cons.IH [OF d this] show ?thesis
      unfolding step .
  qed
qed

text \<open>The loop over the platforms, read at one key of the row.\<close>

lemma loop_keys:
  "listings_loop clock ex ps i row = Inr r \<Longrightarrow> k \<in> fst ` set r \<Longrightarrow>
   k \<in> fst ` set row \<or>
   (\<exists>j < length ps. \<exists>l. generatePlatformListing (clock (i + j)) ex (ps ! j) = Inr l \<and>
      k \<in> fst ` set l)"
proof (induction ps arbitrary: i row)
  case Nil
  then show ?case by simp
next
  case (Cons p ps)
  from Cons.prems(1) obtain l0 where
    l0: "generatePlatformListing (clock i) ex p = Inr l0" and
    rest: "listings_loop clock ex ps (Suc i) (assign row l0) = Inr r"
    by (auto split: sum.splits)
  from Cons.IH [OF rest Cons.prems(2)] consider
    "k \<in> fst ` set (assign row l0)" |
    j l where "j < length ps" "generatePlatformListing (clock (Suc i + j)) ex (ps ! j) = Inr l"
      "k \<in> fst ` set l"
    by blast
  then show ?case
  proof cases
    case 1
    then have "k \<in> fst ` set row \<or> k \<in> fst ` set l0"
      by (simp add: assign_keys)
    then show ?thesis
    proof
      assume "k \<in> fst ` set row"
      then show ?thesis ..
    next
      assume "k \<in> fst ` set l0"
      with l0 have "0 < length (p # ps) \<and>
          (\<exists>l. generatePlatformListing (clock (i + 0)) ex ((p # ps) ! 0) = Inr l \<and> k \<in> fst ` set l)"
        by simp
      then show ?thesis by blast
    qed
  next
    case 2
    then have "Suc j < length (p # ps) \<and>
        (\<exists>l. generatePlatformListing (clock (i + Suc j)) ex ((p # ps) ! Suc j) = Inr l \<and>
           k \<in> fst ` set l)"
      by auto
    then show ?thesis by blast
  qed
qed

lemma loop_distinct:
  "listings_loop clock ex ps i row = Inr r \<Longrightarrow> distinct (map fst row) \<Longrightarrow> distinct (map fst r)"
proof (induction ps arbitrary: i row)
  case Nil
  then show ?case by simp
next
  case (Cons p ps)
  from Cons.prems(1) obtain l0 where
    rest: "listings_loop clock ex ps (Suc i) (assign row l0) = Inr r"
    by (auto split: sum.splits)
  from Cons.IH [OF rest assign_distinct [OF Cons.prems(2)]] show ?case .
qed

lemma loop_other:
  "listings_loop clock ex ps i row = Inr r \<Longrightarrow>
   (\<And>j l. j < length ps \<Longrightarrow> generatePlatformListing (clock (i + j)) ex (ps ! j) = Inr l \<Longrightarrow>
      k \<notin> fst ` set l) \<Longrightarrow>
   map_of r k = map_of row k"
proof (induction ps arbitrary: i row)
  case Nil
  then show ?case by simp
next
  case (Cons p ps)
  from Cons.prems(1) obtain l0 where
    l0: "generatePlatformListing (clock i) ex p = Inr l0" and
    rest: "listings_loop clock ex ps (Suc i) (assign row l0) = Inr r"
    by (auto split: sum.splits)
  from Cons.prems(2) [of 0 l0] l0 have 0: "k \<notin> fst ` set l0"
    by simp
  have "k \<notin> fst ` set l"
    if "j < length ps" "generatePlatformListing (clock (Suc i + j)) ex (ps ! j) = Inr l" for j l
    using Cons.prems(2) [of "Suc j" l] that by simp
  from Cons.IH [OF rest this] assign_other [OF 0] show ?case
    by simp
qed

lemma loop_entry:
  "listings_loop clock ex ps i row = Inr r \<Longrightarrow> j < length ps \<Longrightarrow>
   generatePlatformListing (clock (i + j)) ex (ps ! j) = Inr l \<Longrightarrow>
   distinct (map fst l) \<Longrightarrow> map_of l k = Some v \<Longrightarrow>
   (\<And>j' l'. j < j' \<Longrightarrow> j' < length ps \<Longrightarrow>
      generatePlatformListing (clock (i + j')) ex (ps ! j') = Inr l' \<Longrightarrow> k \<notin> fst ` set l') \<Longrightarrow>
   map_of r k = Some (Str v)"
proof (induction ps arbitrary: i row j)
  case Nil
  then show ?case by simp
next
  case (Cons p ps)
  from Cons.prems(1) obtain l0 where
    l0: "generatePlatformListing (clock i) ex p = Inr l0" and
    rest: "listings_loop clock ex ps (Suc i) (assign row l0) = Inr r"
    by (auto split: sum.splits)
  show ?case
  proof (cases j)
    case 0
    with Cons.prems(3) l0 have "l0 = l" by simp
    with assign_entry [OF Cons.prems(4,5), of row] have
      now: "map_of (assign row l0) k = Some (Str v)"
      by simp
    have "k \<notin> fst ` set l'"
      if "j' < length ps" "generatePlatformListing (clock (Suc i + j')) ex (ps ! j') = Inr l'"
      for j' l'
      using Cons.prems(6) [of "Suc j'" l'] that 0 by simp
    from loop_other [OF rest this] now show ?thesis
      by simp
  next
    case (Suc j0)
    from Cons.prems(2) Suc have 1: "j0 < length ps" by simp
    from Cons.prems(3) Suc have 2: "generatePlatformListing (clock (Suc i + j0)) ex (ps ! j0) = Inr l"
      by simp
    have 3: "k \<notin> fst ` set l'"
      if "j0 < j'" "j' < length ps"
        "generatePlatformListing (clock (Suc i + j')) ex (ps ! j') = Inr l'" for j' l'
      using Cons.prems(6) [of "Suc j'" l'] that Suc by simp
    from Cons.IH [OF rest 1 2 Cons.prems(4,5) 3] show ?thesis .
  qed
qed

text \<open>
  The keys of a listing begin with the name of the platform in capitals, the keys of the
  extracted fields with a small letter: no key of one is a key of another.
\<close>

lemma marketplace_is_platform:
  "p \<in> set marketplaces \<Longrightarrow> \<exists>flds. (p, flds) \<in> set PLATFORM_FIELDS"
proof -
  have "fst ` set PLATFORM_FIELDS = set marketplaces"
    by (simp add: PLATFORM_FIELDS_def marketplaces_def)
  moreover assume "p \<in> set marketplaces"
  ultimately have "p \<in> fst ` set PLATFORM_FIELDS" by simp
  then show ?thesis by force
qed

lemma upper_head:
  assumes "p \<in> set marketplaces"
  shows "(p, take 2 (toUpperCase p)) \<in>
     set [(js ''amazon'', js ''AM''), (js ''flipkart'', js ''FL''),
          (js ''meesho'', js ''ME''), (js ''myntra'', js ''MY'')]"
  using assms
proof (cases rule: marketplace_cases)
  case 1 show ?thesis unfolding 1 upper_simps by (simp add: js_def)
next
  case 2 show ?thesis unfolding 2 upper_simps by (simp add: js_def)
next
  case 3 show ?thesis unfolding 3 upper_simps by (simp add: js_def)
next
  case 4 show ?thesis unfolding 4 upper_simps by (simp add: js_def)
qed

lemma upper_head_inj:
  assumes "p \<in> set marketplaces" and "q \<in> set marketplaces"
    and "take 2 (toUpperCase p) = take 2 (toUpperCase q)"
  shows "p = q"
proof -
  define t where "t = take 2 (toUpperCase p)"
  from upper_head [OF assms(1)] upper_head [OF assms(2)] assms(3)
  have "(p, t) \<in> set [(js ''amazon'', js ''AM''), (js ''flipkart'', js ''FL''),
          (js ''meesho'', js ''ME''), (js ''myntra'', js ''MY'')]"
    and "(q, t) \<in> set [(js ''amazon'', js ''AM''), (js ''flipkart'', js ''FL''),
          (js ''meesho'', js ''ME''), (js ''myntra'', js ''MY'')]"
    unfolding t_def by simp_all
  then show ?thesis by auto
qed

lemma listing_key_head:
  assumes "p \<in> set marketplaces"
  shows "take 2 (listing_key p f) = take 2 (toUpperCase p)"
  using assms
proof (cases rule: marketplace_cases)
  case 1 show ?thesis unfolding 1 listing_key_def upper_simps by (simp add: js_def)
next
  case 2 show ?thesis unfolding 2 listing_key_def upper_simps by (simp add: js_def)
next
  case 3 show ?thesis unfolding 3 listing_key_def upper_simps by (simp add: js_def)
next
  case 4 show ?thesis unfolding 4 listing_key_def upper_simps by (simp add: js_def)
qed

lemma listing_shape:
  assumes "p \<in> set marketplaces" and "generatePlatformListing now ex p = Inr l"
  shows "distinct (map fst l)" and "k \<in> fst ` set l \<Longrightarrow> take 2 k = take 2 (toUpperCase p)"
proof -
  from marketplace_is_platform [OF assms(1)] obtain flds where
    flds: "(p, flds) \<in> set PLATFORM_FIELDS" ..
  let ?v = "\<lambda>f. or_else (map_of (fieldMapping now ex) f) (js ''[REQUIRED]'')"
  let ?w = "\<lambda>f. or_else (map_of (fieldMapping now ex) f) []"
  let ?c = "\<lambda>f. or_else (map_of (fieldMapping now ex) f) [] \<noteq> []"
  from listing_explicit [OF flds, of now ex] assms(2) have
    l: "l = map (\<lambda>f. (listing_key p f, ?v f)) (required flds) @
            map (\<lambda>f. (listing_key p f, ?w f)) (filter ?c (optional flds))"
    by simp
  have keys: "map fst l =
      map (listing_key p) (required flds) @ map (listing_key p) (filter ?c (optional flds))"
    by (simp add: l comp_def)
  from keys_distinct [OF flds] have
    d1: "distinct (map (listing_key p) (required flds))" and
    d2: "distinct (map (listing_key p) (optional flds))" and
    d3: "listing_key p ` set (required flds) \<inter> listing_key p ` set (optional flds) = {}"
    by auto
  from d2 have "distinct (map (listing_key p) (filter ?c (optional flds)))"
    by (rule distinct_map_filter)
  with d1 d3 show "distinct (map fst l)"
    unfolding keys by auto
  show "take 2 k = take 2 (toUpperCase p)" if "k \<in> fst ` set l"
  proof -
    from that have "k \<in> set (map fst l)" by simp
    then obtain f where "k = listing_key p f"
      unfolding keys by auto
    with listing_key_head [OF assms(1)] show ?thesis by simp
  qed
qed

lemma extract_loop_keys:
  "extract_loop ps raw acc = Inr e \<Longrightarrow> fst ` set e \<subseteq> fst ` set acc \<union> fst ` set ps"
proof (induction ps arbitrary: acc)
  case Nil
  then show ?case by simp
next
  case (Cons a ps)
  obtain k r where a: "a = (k, r)" by (cases a)
  show ?case
  proof (cases "rx_search r raw")
    case None
    with Cons.prems a have "extract_loop ps raw acc = Inr e" by simp
    from Cons.IH [OF this] show ?thesis by auto
  next
    case (Some g)
    show ?thesis
    proof (cases g)
      case None
      with \<open>rx_search r raw = Some g\<close> Cons.prems a show ?thesis by simp
    next
      case (Some m)
      with \<open>rx_search r raw = Some g\<close> Cons.prems a have
        "extract_loop ps raw (AList.update k (trim m) acc) = Inr e" by simp
      from Cons.IH [OF this] a show ?thesis
        by (auto simp: dom_update)
    qed
  qed
qed

lemma extract_loop_distinct:
  "extract_loop ps raw acc = Inr e \<Longrightarrow> distinct (map fst acc) \<Longrightarrow> distinct (map fst e)"
proof (induction ps arbitrary: acc)
  case Nil
  then show ?case by simp
next
  case (Cons a ps)
  obtain k r where a: "a = (k, r)" by (cases a)
  show ?case
  proof (cases "rx_search r raw")
    case None
    with Cons.prems a have "extract_loop ps raw acc = Inr e" by simp
    from Cons.IH [OF this Cons.prems(2)] show ?thesis .
  next
    case (Some g)
    show ?thesis
    proof (cases g)
      case None
      with \<open>rx_search r raw = Some g\<close> Cons.prems a show ?thesis by simp
    next
      case (Some m)
      with \<open>rx_search r raw = Some g\<close> Cons.prems a have
        "extract_loop ps raw (AList.update k (trim m) acc) = Inr e" by simp
      from Cons.IH [OF this distinct_update [OF Cons.prems(2)]] show ?thesis .
    qed
  qed
qed

lemma pattern_keys:
  "map fst patterns = map js [''name'', ''brand'', ''price'', ''category'', ''description'',
     ''size'', ''color'', ''material'', ''weight'', ''sku'']"
  by (simp add: patterns_def)

lemma extracted_shape:
  assumes "extractProductInfo raw = Inr e"
  shows "distinct (map fst e)"
    and "k \<in> fst ` set e \<Longrightarrow> p \<in> set marketplaces \<Longrightarrow> take 2 k \<noteq> take 2 (toUpperCase p)"
proof -
  from assms have e: "extract_loop patterns raw [] = Inr e"
    by (simp add: extractProductInfo_def)
  from extract_loop_distinct [OF e] show "distinct (map fst e)"
    by simp
  show "take 2 k \<noteq> take 2 (toUpperCase p)" if k: "k \<in> fst ` set e" and p: "p \<in> set marketplaces"
  proof -
    from extract_loop_keys [OF e] k have "k \<in> set (map fst patterns)"
      by auto
    then have "97 \<le> hd k"
      unfolding pattern_keys by (auto simp: js_def)
    moreover have "hd (take 2 (toUpperCase p)) < 97"
    proof -
      define t where "t = take 2 (toUpperCase p)"
      from upper_head [OF p] have "t \<in> set [js ''AM'', js ''FL'', js ''ME'', js ''MY'']"
        unfolding t_def by auto
      then have "hd t < 97"
        by (auto simp: js_def)
      then show ?thesis
        unfolding t_def .
    qed
    moreover have "hd (take 2 k) = hd k"
      by (cases k) simp_all
    ultimately show ?thesis
      by (metis not_le)
  qed
qed

lemma platforms_distinct: "distinct (platforms (analyzeMessage lc m))"
  by (simp add: analyzeMessage_def Let_def)
section \<open>The catalog of a request\<close>

text \<open>
  Claim C7. When the intent is \<open>catalog\<close> and the raw text is not empty, the handler
  answers with a new catalog: the catalog of the request followed by exactly one new row.
  The new row is the merge of the extracted fields with the listing of every resolved
  platform: it has one entry per key, it holds every extracted field and every entry of
  the listing generated for each resolved platform (the platform at index \<open>j\<close> with the
  clock readings of that call), and it has no other key. For every other intent no
  updated catalog is returned. The catalog of the request is a value that the handler
  only reads, so it is the same after the call.
\<close>

theorem catalog_row_appended:
  "(intent (analyzeMessage lc (message req)) = js ''catalog'' \<and> rawData req \<noteq> [] \<longrightarrow>
      (\<exists>extracted newItem.
         extractProductInfo (rawData req) = Inr extracted \<and>
         listings_loop clock extracted (platforms (analyzeMessage lc (message req))) 0
           (map (\<lambda>(k, v). (k, Str v)) extracted) = Inr newItem \<and>
         updatedCatalog (POST lc clock req) = Some (catalogData req @ [newItem]) \<and>
         status (POST lc clock req) = 200 \<and>
         distinct (map fst newItem) \<and>
         (\<forall>k v. map_of extracted k = Some v \<longrightarrow> map_of newItem k = Some (Str v)) \<and>
         (\<forall>j < length (platforms (analyzeMessage lc (message req))).
            \<exists>l. generatePlatformListing (clock j) extracted
                   (platforms (analyzeMessage lc (message req)) ! j) = Inr l \<and>
                 (\<forall>k v. map_of l k = Some v \<longrightarrow> map_of newItem k = Some (Str v))) \<and>
         (\<forall>k \<in> fst ` set newItem.
            k \<in> fst ` set extracted \<or>
            (\<exists>j < length (platforms (analyzeMessage lc (message req))).
               \<exists>l. generatePlatformListing (clock j) extracted
                      (platforms (analyzeMessage lc (message req)) ! j) = Inr l \<and>
                    k \<in> fst ` set l)))) \<and>
   (intent (analyzeMessage lc (message req)) \<noteq> js ''catalog'' \<longrightarrow>
      updatedCatalog (POST lc clock req) = None)"
proof (intro conjI impI)
  let ?ps = "platforms (analyzeMessage lc (message req))"
  assume a: "intent (analyzeMessage lc (message req)) = js ''catalog'' \<and> rawData req \<noteq> []"
  obtain extracted where e: "extractProductInfo (rawData req) = Inr extracted"
    using extractProductInfo_total by blast
  let ?base = "map (\<lambda>(k, v). (k, Str v)) extracted"
  obtain newItem where n: "listings_loop clock extracted ?ps 0 ?base = Inr newItem"
    using listings_loop_total [OF platforms_known] by blast
  obtain r where r: "catalog_processed ?ps extracted = Inr r"
    using catalog_processed_total [OF platforms_known] by blast
  from a e n r have post: "POST lc clock req =
      \<lparr>response = r, updatedCatalog = Some (catalogData req @ [newItem]), status = 200\<rparr>"
    by (simp add: POST_def handle_def process_catalog_def Let_def)
  have known: "?ps ! j \<in> set marketplaces" if "j < length ?ps" for j
    using platforms_known [of lc "message req"] nth_mem [OF that] by blast
  have base_keys: "map fst ?base = map fst extracted"
    by (simp add: comp_def case_prod_unfold)
  have base_map: "map_of ?base k = map_option Str (map_of extracted k)" for k
    by (simp add: map_of_map)
  have "distinct (map fst ?base)"
    unfolding base_keys by (rule extracted_shape(1) [OF e])
  with n have d: "distinct (map fst newItem)"
    by (rule loop_distinct)
  have ex: "map_of newItem k = Some (Str v)" if kv: "map_of extracted k = Some v" for k v
  proof -
    from kv have k: "k \<in> fst ` set extracted"
      by (metis map_of_eq_None_iff option.distinct(1))
    have "k \<notin> fst ` set l"
      if "j < length ?ps" "generatePlatformListing (clock (0 + j)) extracted (?ps ! j) = Inr l"
      for j l
      using listing_shape(2) [OF known [OF that(1)] that(2), of k]
        extracted_shape(2) [OF e k known [OF that(1)]] by blast
    from loop_other [OF n this] kv base_map [of k] show ?thesis
      by simp
  qed
  have li: "\<exists>l. generatePlatformListing (clock j) extracted (?ps ! j) = Inr l \<and>
               (\<forall>k v. map_of l k = Some v \<longrightarrow> map_of newItem k = Some (Str v))"
    if j: "j < length ?ps" for j
  proof -
    obtain l where l: "generatePlatformListing (clock j) extracted (?ps ! j) = Inr l"
      using generate_known [OF known [OF j]] by blast
    have "map_of newItem k = Some (Str v)" if kv: "map_of l k = Some v" for k v
    proof -
      from kv have k: "k \<in> fst ` set l"
        by (metis map_of_eq_None_iff option.distinct(1))
      have later: "k \<notin> fst ` set l'"
        if "j < j'" "j' < length ?ps"
          "generatePlatformListing (clock (0 + j')) extracted (?ps ! j') = Inr l'" for j' l'
      proof
        assume "k \<in> fst ` set l'"
        with listing_shape(2) [OF known [OF that(2)] that(3)]
        have "take 2 k = take 2 (toUpperCase (?ps ! j'))" .
        moreover from listing_shape(2) [OF known [OF j] l k]
        have "take 2 k = take 2 (toUpperCase (?ps ! j))" .
        ultimately have "?ps ! j = ?ps ! j'"
          using upper_head_inj [OF known [OF j] known [OF that(2)]] by simp
        with nth_eq_iff_index_eq [OF platforms_distinct j that(2)] that(1) show False
          by simp
      qed
      from l have l0: "generatePlatformListing (clock (0 + j)) extracted (?ps ! j) = Inr l"
        by simp
      from loop_entry [OF n j l0 listing_shape(1) [OF known [OF j] l] kv later]
      show ?thesis .
    qed
    with l show ?thesis by blast
  qed
  have keys: "k \<in> fst ` set extracted \<or>
       (\<exists>j < length ?ps. \<exists>l. generatePlatformListing (clock j) extracted (?ps ! j) = Inr l \<and>
          k \<in> fst ` set l)"
    if "k \<in> fst ` set newItem" for k
  proof -
    have "fst ` set ?base = fst ` set extracted"
      using base_keys by (metis set_map)
    with loop_keys [OF n that] show ?thesis
      by simp
  qed
  show "\<exists>extracted newItem.
         extractProductInfo (rawData req) = Inr extracted \<and>
         listings_loop clock extracted ?ps 0 (map (\<lambda>(k, v). (k, Str v)) extracted) = Inr newItem \<and>
         updatedCatalog (POST lc clock req) = Some (catalogData req @ [newItem]) \<and>
         status (POST lc clock req) = 200 \<and>
         distinct (map fst newItem) \<and>
         (\<forall>k v. map_of extracted k = Some v \<longrightarrow> map_of newItem k = Some (Str v)) \<and>
         (\<forall>j < length ?ps.
            \<exists>l. generatePlatformListing (clock j) extracted (?ps ! j) = Inr l \<and>
                 (\<forall>k v. map_of l k = Some v \<longrightarrow> map_of newItem k = Some (Str v))) \<and>
         (\<forall>k \<in> fst ` set newItem.
            k \<in> fst ` set extracted \<or>
            (\<exists>j < length ?ps.
               \<exists>l. generatePlatformListing (clock j) extracted (?ps ! j) = Inr l \<and>
                    k \<in> fst ` set l))"
  proof (intro exI conjI)
    show "extractProductInfo (rawData req) = Inr extracted" by (rule e)
    show "listings_loop clock extracted ?ps 0 ?base = Inr newItem" by (rule n)
    show "updatedCatalog (POST lc clock req) = Some (catalogData req @ [newItem])"
      by (simp add: post)
    show "status (POST lc clock req) = 200"
      by (simp add: post)
    show "distinct (map fst newItem)" by (rule d)
    show "\<forall>k v. map_of extracted k = Some v \<longrightarrow> map_of newItem k = Some (Str v)"
      by (intro allI impI) (rule ex)
    show "\<forall>j < length ?ps.
            \<exists>l. generatePlatformListing (clock j) extracted (?ps ! j) = Inr l \<and>
                 (\<forall>k v. map_of l k = Some v \<longrightarrow> map_of newItem k = Some (Str v))"
      by (intro allI impI) (rule li)
    show "\<forall>k \<in> fst ` set newItem.
            k \<in> fst ` set extracted \<or>
            (\<exists>j < length ?ps.
               \<exists>l. generatePlatformListing (clock j) extracted (?ps ! j) = Inr l \<and>
                    k \<in> fst ` set l)"
      by (intro ballI) (rule keys)
  qed
next
  assume "intent (analyzeMessage lc (message req)) \<noteq> js ''catalog''"
  then show "updatedCatalog (POST lc clock req) = None"
    by (simp add: POST_def handle_def answer_def Let_def split: list.splits sum.splits)
qed

theorem catalog_row_appended_witness:
  "intent (analyzeMessage id (js ''add product'')) = js ''catalog'' \<and>
   rawData \<lparr>message = js ''add product'', catalogData = [[(js ''name'', Str (js ''Cap''))]],
            rawData = js ''Name: Shirt''\<rparr> \<noteq> [] \<and>
   (\<exists>newItem.
      updatedCatalog (POST id (\<lambda>i. (i, i, i))
          \<lparr>message = js ''add product'', catalogData = [[(js ''name'', Str (js ''Cap''))]],
           rawData = js ''Name: Shirt''\<rparr>) =
        Some ([[(js ''name'', Str (js ''Cap''))]] @ [newItem]) \<and>
      distinct (map fst newItem) \<and>
      map_of newItem (js ''name'') = Some (Str (js ''Shirt'')) \<and>
      map_of newItem (js ''AMAZON_Product_Name'') = Some (Str (js ''Shirt'')) \<and>
      map_of newItem (js ''FLIPKART_Product_ID'') = Some (Str (js ''PID1'')) \<and>
      map_of newItem (js ''MEESHO_Brand'') = Some (Str (js ''Generic'')) \<and>
      map_of newItem (js ''MYNTRA_Style_ID'') = Some (Str (js ''STYLE3'')) \<and>
      map_of newItem (js ''AMAZON_Weight'') = None) \<and>
   status (POST id (\<lambda>i. (i, i, i))
       \<lparr>message = js ''add product'', catalogData = [[(js ''name'', Str (js ''Cap''))]],
        rawData = js ''Name: Shirt''\<rparr>) = 200 \<and>
   intent (analyzeMessage id (js ''what tasks do I have'')) \<noteq> js ''catalog'' \<and>
   updatedCatalog (POST id (\<lambda>i. (i, i, i))
       \<lparr>message = js ''what tasks do I have'',
        catalogData = [[(js ''name'', Str (js ''Cap''))]], rawData = js ''Name: Shirt''\<rparr>) = None"
proof -
  let ?r1 = "\<lparr>message = js ''add product'', catalogData = [[(js ''name'', Str (js ''Cap''))]],
              rawData = js ''Name: Shirt''\<rparr>"
  let ?r2 = "\<lparr>message = js ''what tasks do I have'',
              catalogData = [[(js ''name'', Str (js ''Cap''))]], rawData = js ''Name: Shirt''\<rparr>"
  let ?clock = "\<lambda>i :: nat. (i, i, i)"
  let ?ex = "[(js ''name'', js ''Shirt'')]"
  let ?ps = "[js ''amazon'', js ''flipkart'', js ''meesho'', js ''myntra'']"
  have l1: "toLowerCase id (js ''add product'') = js ''add product''"
    by (simp add: toLowerCase_def js_def)
  have l2: "toLowerCase id (js ''what tasks do I have'') = js ''what tasks do i have''"
    by (simp add: toLowerCase_def js_def)
  have h1: "intent (analyzeMessage id (message ?r1)) = js ''catalog''"
    by (simp add: analyzeMessage_def l1) (simp add: js_def starts_with_def)
  have ps: "platforms (analyzeMessage id (message ?r1)) = ?ps"
    by (simp add: analyzeMessage_def l1) (simp add: js_def starts_with_def)
  have h2: "rawData ?r1 \<noteq> []"
    by simp
  have h3: "intent (analyzeMessage id (message ?r2)) \<noteq> js ''catalog''"
    by (simp add: analyzeMessage_def l2) (simp add: js_def starts_with_def)
  have ev: "extractProductInfo (rawData ?r1) = Inr ?ex"
    by (simp add: eval_extract)
  have g0: "generatePlatformListing (?clock 0) ?ex (?ps ! 0) =
      Inr [(js ''AMAZON_Product_Name'', js ''Shirt''), (js ''AMAZON_Brand'', js ''Generic''),
           (js ''AMAZON_Category'', js ''[REQUIRED]''), (js ''AMAZON_Price'', js ''[REQUIRED]''),
           (js ''AMAZON_MRP'', js ''[REQUIRED]''), (js ''AMAZON_SKU'', js ''SKU0''),
           (js ''AMAZON_Description'', js ''[REQUIRED]''),
           (js ''AMAZON_Key_Features'', js ''[REQUIRED]''),
           (js ''AMAZON_Images'', js ''[Image URLs]'')]"
    by (simp add: eval_listing show_digits.simps)
  have g1: "generatePlatformListing (?clock 1) ?ex (?ps ! 1) =
      Inr [(js ''FLIPKART_Product_Name'', js ''Shirt''), (js ''FLIPKART_Brand'', js ''Generic''),
           (js ''FLIPKART_Category'', js ''[REQUIRED]''),
           (js ''FLIPKART_Listing_Price'', js ''[REQUIRED]''),
           (js ''FLIPKART_MRP'', js ''[REQUIRED]''), (js ''FLIPKART_Product_ID'', js ''PID1''),
           (js ''FLIPKART_Description'', js ''[REQUIRED]''),
           (js ''FLIPKART_Key_Features'', js ''[REQUIRED]''),
           (js ''FLIPKART_Product_Image'', js ''[Image URLs]'')]"
    by (simp add: eval_listing show_digits.simps)
  have g2: "generatePlatformListing (?clock 2) ?ex (?ps ! 2) =
      Inr [(js ''MEESHO_Product_Name'', js ''Shirt''), (js ''MEESHO_Category'', js ''[REQUIRED]''),
           (js ''MEESHO_Price'', js ''[REQUIRED]''),
           (js ''MEESHO_Product_Description'', js ''[REQUIRED]''),
           (js ''MEESHO_Product_Images'', js ''[Image URLs]''),
           (js ''MEESHO_Size'', js ''[REQUIRED]''), (js ''MEESHO_Color'', js ''[REQUIRED]''),
           (js ''MEESHO_Brand'', js ''Generic'')]"
    by (simp add: eval_listing show_digits.simps)
  have g3: "generatePlatformListing (?clock 3) ?ex (?ps ! 3) =
      Inr [(js ''MYNTRA_Product_Name'', js ''Shirt''), (js ''MYNTRA_Brand'', js ''Generic''),
           (js ''MYNTRA_Category'', js ''[REQUIRED]''), (js ''MYNTRA_MRP'', js ''[REQUIRED]''),
           (js ''MYNTRA_Selling_Price'', js ''[REQUIRED]''),
           (js ''MYNTRA_Style_ID'', js ''STYLE3''),
           (js ''MYNTRA_Description'', js ''[REQUIRED]''), (js ''MYNTRA_Size'', js ''[REQUIRED]''),
           (js ''MYNTRA_Color'', js ''[REQUIRED]''), (js ''MYNTRA_Images'', js ''[Image URLs]'')]"
    by (simp add: eval_listing show_digits.simps)
  from catalog_row_appended [of id ?r1 ?clock] h1 h2 obtain extracted newItem where
    e: "extractProductInfo (rawData ?r1) = Inr extracted" and
    u: "updatedCatalog (POST id ?clock ?r1) = Some (catalogData ?r1 @ [newItem])" and
    s: "status (POST id ?clock ?r1) = 200" and
    d: "distinct (map fst newItem)" and
    x: "\<forall>k v. map_of extracted k = Some v \<longrightarrow> map_of newItem k = Some (Str v)" and
    li: "\<forall>j < length (platforms (analyzeMessage id (message ?r1))).
           \<exists>l. generatePlatformListing (?clock j) extracted
                  (platforms (analyzeMessage id (message ?r1)) ! j) = Inr l \<and>
                (\<forall>k v. map_of l k = Some v \<longrightarrow> map_of newItem k = Some (Str v))" and
    keys: "\<forall>k \<in> fst ` set newItem.
            k \<in> fst ` set extracted \<or>
            (\<exists>j < length (platforms (analyzeMessage id (message ?r1))).
               \<exists>l. generatePlatformListing (?clock j) extracted
                      (platforms (analyzeMessage id (message ?r1)) ! j) = Inr l \<and>
                    k \<in> fst ` set l)"
    by blast
  from e ev have ex: "extracted = ?ex"
    by simp
  have entry: "map_of newItem k = Some (Str v)"
    if "j < length ?ps" "generatePlatformListing (?clock j) ?ex (?ps ! j) = Inr l"
      "map_of l k = Some v"
    for j l k v
  proof -
    from li [unfolded ps ex] that(1) obtain l' where
      "generatePlatformListing (?clock j) ?ex (?ps ! j) = Inr l'"
      "\<forall>k v. map_of l' k = Some v \<longrightarrow> map_of newItem k = Some (Str v)"
      by blast
    with that(2,3) show ?thesis by simp
  qed
  have n0: "map_of newItem (js ''name'') = Some (Str (js ''Shirt''))"
    using x unfolding ex by simp
  have n1: "map_of newItem (js ''AMAZON_Product_Name'') = Some (Str (js ''Shirt''))"
    by (rule entry [OF _ g0]) simp_all
  have n2: "map_of newItem (js ''FLIPKART_Product_ID'') = Some (Str (js ''PID1''))"
    by (rule entry [OF _ g1]) simp_all
  have n3: "map_of newItem (js ''MEESHO_Brand'') = Some (Str (js ''Generic''))"
    by (rule entry [OF _ g2]) simp_all
  have n4: "map_of newItem (js ''MYNTRA_Style_ID'') = Some (Str (js ''STYLE3''))"
    by (rule entry [OF _ g3]) simp_all
  have n5: "map_of newItem (js ''AMAZON_Weight'') = None"
  proof -
    have "js ''AMAZON_Weight'' \<notin> fst ` set newItem"
    proof
      assume "js ''AMAZON_Weight'' \<in> fst ` set newItem"
      with keys [unfolded ps ex] have "js ''AMAZON_Weight'' \<in> fst ` set ?ex \<or>
          (\<exists>j < length ?ps. \<exists>l. generatePlatformListing (?clock j) ?ex (?ps ! j) = Inr l \<and>
             js ''AMAZON_Weight'' \<in> fst ` set l)"
        by blast
      moreover have "js ''AMAZON_Weight'' \<notin> fst ` set ?ex"
        by simp
      ultimately obtain j l where j: "j < length ?ps"
        and l: "generatePlatformListing (?clock j) ?ex (?ps ! j) = Inr l"
        and k: "js ''AMAZON_Weight'' \<in> fst ` set l"
        by blast
      from j have "j < 4"
        by simp
      then consider "j = 0" | "j = 1" | "j = 2" | "j = 3"
        by linarith
      then show False
      proof cases
        case 1 with l k g0 show False by simp
      next
        case 2 with l k g1 show False by simp
      next
        case 3 with l k g2 show False by simp
      next
        case 4 with l k g3 show False by simp
      qed
    qed
    then show ?thesis
      by (simp add: map_of_eq_None_iff)
  qed
  have b: "updatedCatalog (POST id ?clock ?r2) = None"
    using catalog_row_appended [of id ?r2 ?clock] h3 by blast
  from u have u': "updatedCatalog (POST id ?clock ?r1) =
      Some ([[(js ''name'', Str (js ''Cap''))]] @ [newItem])"
    by simp
  have "\<exists>newItem.
      updatedCatalog (POST id ?clock ?r1) = Some ([[(js ''name'', Str (js ''Cap''))]] @ [newItem]) \<and>
      distinct (map fst newItem) \<and>
      map_of newItem (js ''name'') = Some (Str (js ''Shirt'')) \<and>
      map_of newItem (js ''AMAZON_Product_Name'') = Some (Str (js ''Shirt'')) \<and>
      map_of newItem (js ''FLIPKART_Product_ID'') = Some (Str (js ''PID1'')) \<and>
      map_of newItem (js ''MEESHO_Brand'') = Some (Str (js ''Generic'')) \<and>
      map_of newItem (js ''MYNTRA_Style_ID'') = Some (Str (js ''STYLE3'')) \<and>
      map_of newItem (js ''AMAZON_Weight'') = None"
    using u' d n0 n1 n2 n3 n4 n5 by (intro exI [of _ newItem] conjI)
  moreover from h1 have "intent (analyzeMessage id (js ''add product'')) = js ''catalog''"
    by simp
  moreover from h3 have "intent (analyzeMessage id (js ''what tasks do I have'')) \<noteq> js ''catalog''"
    by simp
  ultimately show ?thesis
    using h2 s b by (intro conjI)
qed
section \<open>The message "analyze my catalog"\<close>

lemma lower_ascii: "toLowerCase lc (js ''analyze my catalog'') = js ''analyze my catalog''"
  by (simp add: toLowerCase_def js_def)

lemma includes_catalog: "js_includes (js ''analyze my catalog'') (js ''catalog'')"
  by (simp add: js_def starts_with_def)

text \<open>
  Claim C4. The message \<open>analyze my catalog\<close> contains the word \<open>catalog\<close>, which the
  classifier tests first: the intent is \<open>catalog\<close>, not \<open>analyze\<close>. With an empty catalog
  and no raw text the handler answers with the guidance for creating listings, which is
  not the text that no catalog is loaded; no updated catalog is returned.
\<close>

theorem analyze_my_catalog_is_routed_to_catalog:
  "intent (analyzeMessage lc (js ''analyze my catalog'')) = js ''catalog'' \<and>
   POST lc clock \<lparr>message = js ''analyze my catalog'', catalogData = [], rawData = []\<rparr> =
     \<lparr>response = catalog_guidance [js ''amazon'', js ''flipkart'', js ''meesho'', js ''myntra''],
      updatedCatalog = None, status = 200\<rparr> \<and>
   catalog_guidance [js ''amazon'', js ''flipkart'', js ''meesho'', js ''myntra''] \<noteq>
     no_catalog_loaded"
proof -
  have i: "intent (analyzeMessage lc (js ''analyze my catalog'')) = js ''catalog''"
    by (simp add: analyzeMessage_def Let_def lower_ascii includes_catalog)
  have "\<not> js_includes (js ''analyze my catalog'') (js w)"
    if "w \<in> set [''amazon'', ''flipkart'', ''meesho'', ''myntra'']" for w
    using that by (auto simp: js_def starts_with_def)
  then have p: "platforms (analyzeMessage lc (js ''analyze my catalog'')) =
      [js ''amazon'', js ''flipkart'', js ''meesho'', js ''myntra'']"
    by (simp add: analyzeMessage_def Let_def lower_ascii includes_catalog)
  have d: "catalog_guidance [js ''amazon'', js ''flipkart'', js ''meesho'', js ''myntra''] \<noteq>
      no_catalog_loaded"
    by (simp add: catalog_guidance_def no_catalog_loaded_def js_def)
  from i p d show ?thesis
    by (simp add: POST_def handle_def answer_def Let_def)
qed

section \<open>The analyze branch without a marketplace name\<close>

lemma platforms_of_analyze:
  "intent (analyzeMessage lc m) = js ''analyze'' \<Longrightarrow>
   platforms (analyzeMessage lc m) =
     (if js_includes (toLowerCase lc m) (js ''amazon'') then [js ''amazon''] else []) @
     (if js_includes (toLowerCase lc m) (js ''flipkart'') then [js ''flipkart''] else []) @
     (if js_includes (toLowerCase lc m) (js ''meesho'') then [js ''meesho''] else []) @
     (if js_includes (toLowerCase lc m) (js ''myntra'') then [js ''myntra''] else [])"
  by (simp add: analyzeMessage_def Let_def split: if_splits)

text \<open>
  Claim C9. A message with intent \<open>analyze\<close> that names none of the four marketplaces
  resolves to an empty list of platforms: the default of all four is for the intent
  \<open>catalog\<close> only. On a catalog that is not empty the handler then checks no required
  field at all and answers that the catalog looks complete, whatever the first row holds.
\<close>

theorem analyze_without_platform_is_complete:
  assumes "intent (analyzeMessage lc (message req)) = js ''analyze''"
    and "\<forall>p \<in> set [''amazon'', ''flipkart'', ''meesho'', ''myntra''].
           \<not> js_includes (toLowerCase lc (message req)) (js p)"
  shows "platforms (analyzeMessage lc (message req)) = [] \<and>
         (catalogData req \<noteq> [] \<longrightarrow>
            POST lc clock req =
              \<lparr>response = js ''Great! Your catalog looks complete for . All required fields are filled. You're ready to list your products!'',
               updatedCatalog = None, status = 200\<rparr>)"
proof -
  have p: "platforms (analyzeMessage lc (message req)) = []"
    using assms by (simp add: platforms_of_analyze)
  have "POST lc clock req =
          \<lparr>response = analysis_complete [], updatedCatalog = None, status = 200\<rparr>"
    if "catalogData req \<noteq> []"
    using that assms(1) p
    by (cases "catalogData req") (simp_all add: POST_def handle_def answer_def Let_def)
  moreover have "analysis_complete [] = js ''Great! Your catalog looks complete for . All required fields are filled. You're ready to list your products!''"
    by (simp add: analysis_complete_def js_def)
  ultimately show ?thesis
    using p by simp
qed

theorem analyze_without_platform_is_complete_witness:
  "intent (analyzeMessage id (js ''check it'')) = js ''analyze'' \<and>
   \<not> js_includes (toLowerCase id (js ''check it'')) (js ''amazon'') \<and>
   \<not> js_includes (toLowerCase id (js ''check it'')) (js ''flipkart'') \<and>
   \<not> js_includes (toLowerCase id (js ''check it'')) (js ''meesho'') \<and>
   \<not> js_includes (toLowerCase id (js ''check it'')) (js ''myntra'') \<and>
   platforms (analyzeMessage id (js ''check it'')) = [] \<and>
   POST id (\<lambda>i. (0, 0, 0))
       \<lparr>message = js ''check it'', catalogData = [[(js ''name'', Str (js ''Shirt''))]],
        rawData = []\<rparr> =
     \<lparr>response = js ''Great! Your catalog looks complete for . All required fields are filled. You're ready to list your products!'',
      updatedCatalog = None, status = 200\<rparr>"
proof -
  let ?req = "\<lparr>message = js ''check it'',
               catalogData = [[(js ''name'', Str (js ''Shirt''))]], rawData = []\<rparr>"
  have low: "toLowerCase id (js ''check it'') = js ''check it''"
    by (simp add: toLowerCase_def js_def)
  have h1: "intent (analyzeMessage id (message ?req)) = js ''analyze''"
    by (simp add: analyzeMessage_def low) (simp add: js_def starts_with_def)
  have h2: "\<forall>p \<in> set [''amazon'', ''flipkart'', ''meesho'', ''myntra''].
              \<not> js_includes (toLowerCase id (message ?req)) (js p)"
    by (simp add: low) (simp add: js_def starts_with_def)
  from analyze_without_platform_is_complete [OF h1 h2, of "\<lambda>i. (0, 0, 0)"] h1 h2
  show ?thesis by simp
qed

section \<open>The keys of a listing\<close>

text \<open>
  Claim C1. For each of the four platforms of \<open>PLATFORM_FIELDS\<close>, every map of extracted
  fields and every reading of the clock, \<open>generatePlatformListing\<close> returns a record
  \<open>L\<close> whose keys are the name \<open>P\<close> of the platform in capitals, an underscore, and a
  label with every space replaced by an underscore. The key of every required label
  occurs exactly once, with the mapped value when that is not empty and the sentinel
  \<open>[REQUIRED]\<close> otherwise; the key of an optional label occurs once when its mapped value
  is not empty and not at all otherwise, so never with an empty value; and \<open>L\<close> has no
  other key.
\<close>

theorem listing_keys:
  assumes "(p, flds) \<in> set PLATFORM_FIELDS"
  shows "\<exists>P L.
     (p, P) \<in> set [(js ''amazon'', js ''AMAZON''), (js ''flipkart'', js ''FLIPKART''),
                    (js ''meesho'', js ''MEESHO''), (js ''myntra'', js ''MYNTRA'')] \<and>
     generatePlatformListing now ex p = Inr L \<and>
     (\<forall>f \<in> set (required flds).
        count_list (map fst L) (P @ js ''_'' @ map (\<lambda>c. if c = 32 then 95 else c) f) = 1 \<and>
        map_of L (P @ js ''_'' @ map (\<lambda>c. if c = 32 then 95 else c) f) =
          Some (or_else (map_of (fieldMapping now ex) f) (js ''[REQUIRED]''))) \<and>
     (\<forall>f \<in> set (optional flds).
        count_list (map fst L) (P @ js ''_'' @ map (\<lambda>c. if c = 32 then 95 else c) f) =
          (if or_else (map_of (fieldMapping now ex) f) [] \<noteq> [] then 1 else 0) \<and>
        map_of L (P @ js ''_'' @ map (\<lambda>c. if c = 32 then 95 else c) f) =
          (if or_else (map_of (fieldMapping now ex) f) [] \<noteq> []
           then Some (or_else (map_of (fieldMapping now ex) f) []) else None)) \<and>
     fst ` set L \<subseteq> (\<lambda>f. P @ js ''_'' @ map (\<lambda>c. if c = 32 then 95 else c) f) `
                       (set (required flds) \<union> set (optional flds))"
proof -
  let ?L = "map (\<lambda>f. (listing_key p f,
                       or_else (map_of (fieldMapping now ex) f) (js ''[REQUIRED]'')))
              (required flds) @
            map (\<lambda>f. (listing_key p f, or_else (map_of (fieldMapping now ex) f) []))
              (filter (\<lambda>f. or_else (map_of (fieldMapping now ex) f) [] \<noteq> []) (optional flds))"
  let ?key = "\<lambda>f. toUpperCase p @ js ''_'' @ map (\<lambda>c. if c = 32 then 95 else c) f"
  have L: "generatePlatformListing now ex p = Inr ?L"
    by (rule listing_explicit [OF assms])
  have key: "?key f = listing_key p f" if "f \<in> set (required flds) \<union> set (optional flds)" for f
    using listing_key_text [OF assms that] by simp
  note parts = two_part_record
    [where k = "listing_key p" and Rs = "required flds" and Os = "optional flds"
       and v = "\<lambda>f. or_else (map_of (fieldMapping now ex) f) (js ''[REQUIRED]'')"
       and w = "\<lambda>f. or_else (map_of (fieldMapping now ex) f) []"
       and c = "\<lambda>f. or_else (map_of (fieldMapping now ex) f) [] \<noteq> []"
       and L = ?L, OF keys_distinct [OF assms] refl]
  show ?thesis
  proof (intro exI conjI ballI)
    show "(p, toUpperCase p) \<in> set [(js ''amazon'', js ''AMAZON''), (js ''flipkart'', js ''FLIPKART''),
                    (js ''meesho'', js ''MEESHO''), (js ''myntra'', js ''MYNTRA'')]"
      by (rule upper_names [OF assms])
    show "generatePlatformListing now ex p = Inr ?L"
      by (rule L)
    show "count_list (map fst ?L) (?key f) = 1" if "f \<in> set (required flds)" for f
    proof -
      from that have "?key f = listing_key p f" by (simp add: key)
      with parts(1) [OF that] show ?thesis by simp
    qed
    show "map_of ?L (?key f) =
        Some (or_else (map_of (fieldMapping now ex) f) (js ''[REQUIRED]''))"
      if "f \<in> set (required flds)" for f
    proof -
      from that have "?key f = listing_key p f" by (simp add: key)
      with parts(1) [OF that] show ?thesis by simp
    qed
    show "count_list (map fst ?L) (?key f) =
        (if or_else (map_of (fieldMapping now ex) f) [] \<noteq> [] then 1 else 0)"
      if "f \<in> set (optional flds)" for f
    proof -
      from that have "?key f = listing_key p f" by (simp add: key)
      with parts(2) [OF that] show ?thesis by simp
    qed
    show "map_of ?L (?key f) =
        (if or_else (map_of (fieldMapping now ex) f) [] \<noteq> []
         then Some (or_else (map_of (fieldMapping now ex) f) []) else None)"
      if "f \<in> set (optional flds)" for f
    proof -
      from that have "?key f = listing_key p f" by (simp add: key)
      with parts(2) [OF that] show ?thesis by simp
    qed
    have "?key ` (set (required flds) \<union> set (optional flds)) =
          listing_key p ` (set (required flds) \<union> set (optional flds))"
      by (rule image_cong [OF refl key])
    with parts(3) show "fst ` set ?L \<subseteq> ?key ` (set (required flds) \<union> set (optional flds))"
      by simp
  qed
qed

theorem listing_keys_witness:
  "(js ''amazon'',
    \<lparr>required = map js [''Product Name'', ''Brand'', ''Category'', ''Price'', ''MRP'', ''SKU'',
                          ''Description'', ''Key Features'', ''Images''],
     optional = map js [''Weight'', ''Dimensions'', ''Color'', ''Size'', ''Material'',
                          ''HSN Code'', ''GST'']\<rparr>) \<in> set PLATFORM_FIELDS \<and>
   (\<exists>L. generatePlatformListing (1, 2, 3) [(js ''name'', js ''Shirt''), (js ''color'', js ''Blue'')]
          (js ''amazon'') = Inr L \<and>
        count_list (map fst L) (js ''AMAZON_Product_Name'') = 1 \<and>
        map_of L (js ''AMAZON_Product_Name'') = Some (js ''Shirt'') \<and>
        count_list (map fst L) (js ''AMAZON_Category'') = 1 \<and>
        map_of L (js ''AMAZON_Category'') = Some (js ''[REQUIRED]'') \<and>
        count_list (map fst L) (js ''AMAZON_Color'') = 1 \<and>
        map_of L (js ''AMAZON_Color'') = Some (js ''Blue'') \<and>
        count_list (map fst L) (js ''AMAZON_HSN_Code'') = 0 \<and>
        map_of L (js ''AMAZON_HSN_Code'') = None)"
proof -
  let ?F = "\<lparr>required = map js [''Product Name'', ''Brand'', ''Category'', ''Price'', ''MRP'', ''SKU'',
                          ''Description'', ''Key Features'', ''Images''],
     optional = map js [''Weight'', ''Dimensions'', ''Color'', ''Size'', ''Material'',
                          ''HSN Code'', ''GST'']\<rparr>"
  let ?ex = "[(js ''name'', js ''Shirt''), (js ''color'', js ''Blue'')]"
  let ?u = "map (\<lambda>c. if c = 32 then 95 else c)"
  have h: "(js ''amazon'', ?F) \<in> set PLATFORM_FIELDS"
    by (simp add: PLATFORM_FIELDS_def)
  from listing_keys [OF h, of "(1, 2, 3)" ?ex] obtain P L where
    P: "(js ''amazon'', P) \<in> set [(js ''amazon'', js ''AMAZON''), (js ''flipkart'', js ''FLIPKART''),
                    (js ''meesho'', js ''MEESHO''), (js ''myntra'', js ''MYNTRA'')]" and
    L: "generatePlatformListing (1, 2, 3) ?ex (js ''amazon'') = Inr L" and
    req: "\<forall>f \<in> set (required ?F).
        count_list (map fst L) (P @ js ''_'' @ ?u f) = 1 \<and>
        map_of L (P @ js ''_'' @ ?u f) =
          Some (or_else (map_of (fieldMapping (1, 2, 3) ?ex) f) (js ''[REQUIRED]''))" and
    opt: "\<forall>f \<in> set (optional ?F).
        count_list (map fst L) (P @ js ''_'' @ ?u f) =
          (if or_else (map_of (fieldMapping (1, 2, 3) ?ex) f) [] \<noteq> [] then 1 else 0) \<and>
        map_of L (P @ js ''_'' @ ?u f) =
          (if or_else (map_of (fieldMapping (1, 2, 3) ?ex) f) [] \<noteq> []
           then Some (or_else (map_of (fieldMapping (1, 2, 3) ?ex) f) []) else None)"
    by (elim exE conjE)
  from P have P': "P = js ''AMAZON''"
    by simp
  have k0: "P @ js ''_'' @ ?u (js ''Product Name'') = js ''AMAZON_Product_Name''"
    and k1: "P @ js ''_'' @ ?u (js ''Category'') = js ''AMAZON_Category''"
    and k2: "P @ js ''_'' @ ?u (js ''Color'') = js ''AMAZON_Color''"
    and k3: "P @ js ''_'' @ ?u (js ''HSN Code'') = js ''AMAZON_HSN_Code''"
    by (simp_all add: P' js_def)
  have v0: "map_of (fieldMapping (1, 2, 3) ?ex) (js ''Product Name'') = Some (js ''Shirt'')"
    and v1: "map_of (fieldMapping (1, 2, 3) ?ex) (js ''Category'') = Some []"
    and v2: "map_of (fieldMapping (1, 2, 3) ?ex) (js ''Color'') = Some (js ''Blue'')"
    and v3: "map_of (fieldMapping (1, 2, 3) ?ex) (js ''HSN Code'') = None"
    by (simp_all add: fieldMapping_direct fieldMapping_unmapped or_else_def)
  from req have "count_list (map fst L) (P @ js ''_'' @ ?u (js ''Product Name'')) = 1 \<and>
      map_of L (P @ js ''_'' @ ?u (js ''Product Name'')) =
        Some (or_else (map_of (fieldMapping (1, 2, 3) ?ex) (js ''Product Name'')) (js ''[REQUIRED]''))"
    by simp
  then have z: "count_list (map fst L) (js ''AMAZON_Product_Name'') = 1 \<and>
      map_of L (js ''AMAZON_Product_Name'') = Some (js ''Shirt'')"
    unfolding k0 v0 by (simp add: or_else_def)
  from req have "count_list (map fst L) (P @ js ''_'' @ ?u (js ''Category'')) = 1 \<and>
      map_of L (P @ js ''_'' @ ?u (js ''Category'')) =
        Some (or_else (map_of (fieldMapping (1, 2, 3) ?ex) (js ''Category'')) (js ''[REQUIRED]''))"
    by simp
  then have a: "count_list (map fst L) (js ''AMAZON_Category'') = 1 \<and>
      map_of L (js ''AMAZON_Category'') = Some (js ''[REQUIRED]'')"
    unfolding k1 v1 by (simp add: or_else_def)
  from opt have "count_list (map fst L) (P @ js ''_'' @ ?u (js ''Color'')) =
        (if or_else (map_of (fieldMapping (1, 2, 3) ?ex) (js ''Color'')) [] \<noteq> [] then 1 else 0) \<and>
      map_of L (P @ js ''_'' @ ?u (js ''Color'')) =
        (if or_else (map_of (fieldMapping (1, 2, 3) ?ex) (js ''Color'')) [] \<noteq> []
         then Some (or_else (map_of (fieldMapping (1, 2, 3) ?ex) (js ''Color'')) []) else None)"
    by simp
  then have b: "count_list (map fst L) (js ''AMAZON_Color'') = 1 \<and>
      map_of L (js ''AMAZON_Color'') = Some (js ''Blue'')"
    unfolding k2 v2 by (simp add: or_else_def)
  from opt have "count_list (map fst L) (P @ js ''_'' @ ?u (js ''HSN Code'')) =
        (if or_else (map_of (fieldMapping (1, 2, 3) ?ex) (js ''HSN Code'')) [] \<noteq> [] then 1 else 0) \<and>
      map_of L (P @ js ''_'' @ ?u (js ''HSN Code'')) =
        (if or_else (map_of (fieldMapping (1, 2, 3) ?ex) (js ''HSN Code'')) [] \<noteq> []
         then Some (or_else (map_of (fieldMapping (1, 2, 3) ?ex) (js ''HSN Code'')) []) else None)"
    by simp
  then have c: "count_list (map fst L) (js ''AMAZON_HSN_Code'') = 0 \<and>
      map_of L (js ''AMAZON_HSN_Code'') = None"
    unfolding k3 v3 by (simp add: or_else_def)
  from h L z a b c show ?thesis by blast
qed
section \<open>Labels that map directly, and the brand\<close>

text \<open>
  Claim C2, as stated, fails: with no \<open>brand\<close> entry the label \<open>Brand\<close> maps to the
  literal \<open>Generic\<close>, not to the empty string, and the listing for \<open>amazon\<close>, where
  \<open>Brand\<close> is required, holds \<open>AMAZON_Brand = Generic\<close> and not the sentinel.
\<close>

theorem brand_absent_counterexample:
  "map_of ([] :: fields) (js ''brand'') = None \<and>
   map_of (fieldMapping (0, 0, 0) []) (js ''Brand'') = Some (js ''Generic'') \<and>
   generatePlatformListing (0, 0, 0) [] (js ''amazon'') =
     Inr [(js ''AMAZON_Product_Name'', js ''[REQUIRED]''),
        (js ''AMAZON_Brand'', js ''Generic''),
        (js ''AMAZON_Category'', js ''[REQUIRED]''),
        (js ''AMAZON_Price'', js ''[REQUIRED]''),
        (js ''AMAZON_MRP'', js ''[REQUIRED]''),
        (js ''AMAZON_SKU'', js ''SKU0''),
        (js ''AMAZON_Description'', js ''[REQUIRED]''),
        (js ''AMAZON_Key_Features'', js ''[REQUIRED]''),
        (js ''AMAZON_Images'', js ''[Image URLs]'')]"
  by (simp add: eval_listing show_digits.simps)

text \<open>
  Claim C2, amended. The label \<open>Brand\<close> maps to the \<open>brand\<close> field when that is present
  and not empty, and to the literal \<open>Generic\<close> otherwise. Each of the twelve other labels
  that are not derived maps to its extracted field, or to the empty string when the field
  is absent or empty. A listing of a platform whose required list contains \<open>Brand\<close>
  holds the key \<open>{PLATFORM}_Brand\<close> with the brand or \<open>Generic\<close>.
\<close>

theorem brand_defaults_to_generic:
  "map_of (fieldMapping now ex) (js ''Brand'') =
     Some (or_else (map_of ex (js ''brand'')) (js ''Generic'')) \<and>
   (\<forall>(label, field) \<in> set
       [(''Product Name'', ''name''), (''Category'', ''category''), (''Price'', ''price''),
        (''Selling Price'', ''price''), (''Listing Price'', ''price''),
        (''Description'', ''description''), (''Product Description'', ''description''),
        (''Size'', ''size''), (''Color'', ''color''), (''Material'', ''material''),
        (''Weight'', ''weight''), (''Package Weight'', ''weight'')].
      map_of (fieldMapping now ex) (js label) = Some (or_else (map_of ex (js field)) [])) \<and>
   ((p, flds) \<in> set PLATFORM_FIELDS \<and> js ''Brand'' \<in> set (required flds) \<longrightarrow>
      (\<exists>L. generatePlatformListing now ex p = Inr L \<and>
           map_of L (toUpperCase p @ js ''_Brand'') =
             Some (or_else (map_of ex (js ''brand'')) (js ''Generic''))))"
proof (intro conjI impI)
  show "map_of (fieldMapping now ex) (js ''Brand'') =
      Some (or_else (map_of ex (js ''brand'')) (js ''Generic''))"
    by (rule fieldMapping_Brand)
  show "\<forall>(label, field) \<in> set
       [(''Product Name'', ''name''), (''Category'', ''category''), (''Price'', ''price''),
        (''Selling Price'', ''price''), (''Listing Price'', ''price''),
        (''Description'', ''description''), (''Product Description'', ''description''),
        (''Size'', ''size''), (''Color'', ''color''), (''Material'', ''material''),
        (''Weight'', ''weight''), (''Package Weight'', ''weight'')].
      map_of (fieldMapping now ex) (js label) = Some (or_else (map_of ex (js field)) [])"
    by (simp add: fieldMapping_direct)
next
  assume a: "(p, flds) \<in> set PLATFORM_FIELDS \<and> js ''Brand'' \<in> set (required flds)"
  let ?v = "\<lambda>f. or_else (map_of (fieldMapping now ex) f) (js ''[REQUIRED]'')"
  let ?w = "\<lambda>f. or_else (map_of (fieldMapping now ex) f) []"
  let ?L = "map (\<lambda>f. (listing_key p f, ?v f)) (required flds) @
            map (\<lambda>f. (listing_key p f, ?w f)) (filter (\<lambda>f. ?w f \<noteq> []) (optional flds))"
  from a have m: "(p, flds) \<in> set PLATFORM_FIELDS" and b: "js ''Brand'' \<in> set (required flds)"
    by simp_all
  have L: "generatePlatformListing now ex p = Inr ?L"
    by (rule listing_explicit [OF m])
  have "map_of ?L (listing_key p (js ''Brand'')) = Some (?v (js ''Brand''))"
    using two_part_record(1)
      [where k = "listing_key p" and Rs = "required flds" and Os = "optional flds"
         and v = ?v and w = ?w and c = "\<lambda>f. ?w f \<noteq> []" and L = ?L,
       OF keys_distinct [OF m] refl b]
    by simp
  moreover have "?v (js ''Brand'') = or_else (map_of ex (js ''brand'')) (js ''Generic'')"
    by (simp add: fieldMapping_Brand or_else_twice or_else_nonempty)
  moreover have "listing_key p (js ''Brand'') = toUpperCase p @ js ''_Brand''"
    by (simp add: listing_key_def js_def is_space_def)
  ultimately show "\<exists>L. generatePlatformListing now ex p = Inr L \<and>
       map_of L (toUpperCase p @ js ''_Brand'') =
         Some (or_else (map_of ex (js ''brand'')) (js ''Generic''))"
    using L by (intro exI [of _ ?L]) simp
qed

theorem brand_defaults_to_generic_witness:
  "(js ''amazon'',
    \<lparr>required = map js [''Product Name'', ''Brand'', ''Category'', ''Price'', ''MRP'', ''SKU'',
                          ''Description'', ''Key Features'', ''Images''],
     optional = map js [''Weight'', ''Dimensions'', ''Color'', ''Size'', ''Material'',
                          ''HSN Code'', ''GST'']\<rparr>) \<in> set PLATFORM_FIELDS \<and>
   js ''Brand'' \<in> set (required
    \<lparr>required = map js [''Product Name'', ''Brand'', ''Category'', ''Price'', ''MRP'', ''SKU'',
                          ''Description'', ''Key Features'', ''Images''],
     optional = map js [''Weight'', ''Dimensions'', ''Color'', ''Size'', ''Material'',
                          ''HSN Code'', ''GST'']\<rparr>) \<and>
   (\<exists>L. generatePlatformListing (1, 2, 3) [(js ''brand'', js ''Acme'')] (js ''amazon'') = Inr L \<and>
        map_of L (js ''AMAZON_Brand'') = Some (js ''Acme''))"
proof -
  let ?F = "\<lparr>required = map js [''Product Name'', ''Brand'', ''Category'', ''Price'', ''MRP'', ''SKU'',
                          ''Description'', ''Key Features'', ''Images''],
     optional = map js [''Weight'', ''Dimensions'', ''Color'', ''Size'', ''Material'',
                          ''HSN Code'', ''GST'']\<rparr>"
  let ?ex = "[(js ''brand'', js ''Acme'')]"
  have h: "(js ''amazon'', ?F) \<in> set PLATFORM_FIELDS \<and> js ''Brand'' \<in> set (required ?F)"
    by (simp add: PLATFORM_FIELDS_def)
  have "(js ''amazon'', ?F) \<in> set PLATFORM_FIELDS \<and> js ''Brand'' \<in> set (required ?F) \<longrightarrow>
      (\<exists>L. generatePlatformListing (1, 2, 3) ?ex (js ''amazon'') = Inr L \<and>
           map_of L (toUpperCase (js ''amazon'') @ js ''_Brand'') =
             Some (or_else (map_of ?ex (js ''brand'')) (js ''Generic'')))"
    using brand_defaults_to_generic [of "(1, 2, 3)" ?ex "js ''amazon''" ?F]
    by (elim conjE)
  with h obtain L where
    L: "generatePlatformListing (1, 2, 3) ?ex (js ''amazon'') = Inr L" and
    b: "map_of L (toUpperCase (js ''amazon'') @ js ''_Brand'') =
          Some (or_else (map_of ?ex (js ''brand'')) (js ''Generic''))"
    by blast
  have k: "toUpperCase (js ''amazon'') @ js ''_Brand'' = js ''AMAZON_Brand''"
    by (simp add: toUpperCase_def js_def)
  have v: "or_else (map_of ?ex (js ''brand'')) (js ''Generic'') = js ''Acme''"
    by (simp add: or_else_def)
  from b have "map_of L (js ''AMAZON_Brand'') = Some (js ''Acme'')"
    unfolding k v .
  with h L show ?thesis by blast
qed

section \<open>Two runs of the listing generator\<close>

text \<open>
  Claim C8, as stated, fails: a \<open>sku\<close> entry that is present but empty is falsy, so the
  three identifiers are still derived from the clock, and two runs on the same fields
  differ.
\<close>

theorem empty_sku_counterexample:
  "map_of [(js ''sku'', [])] (js ''sku'') = Some [] \<and>
   generatePlatformListing (1, 1, 1) [(js ''sku'', [])] (js ''amazon'') =
     Inr [(js ''AMAZON_Product_Name'', js ''[REQUIRED]''),
        (js ''AMAZON_Brand'', js ''Generic''),
        (js ''AMAZON_Category'', js ''[REQUIRED]''),
        (js ''AMAZON_Price'', js ''[REQUIRED]''),
        (js ''AMAZON_MRP'', js ''[REQUIRED]''),
        (js ''AMAZON_SKU'', js ''SKU1''),
        (js ''AMAZON_Description'', js ''[REQUIRED]''),
        (js ''AMAZON_Key_Features'', js ''[REQUIRED]''),
        (js ''AMAZON_Images'', js ''[Image URLs]'')] \<and>
   generatePlatformListing (2, 2, 2) [(js ''sku'', [])] (js ''amazon'') =
     Inr [(js ''AMAZON_Product_Name'', js ''[REQUIRED]''),
        (js ''AMAZON_Brand'', js ''Generic''),
        (js ''AMAZON_Category'', js ''[REQUIRED]''),
        (js ''AMAZON_Price'', js ''[REQUIRED]''),
        (js ''AMAZON_MRP'', js ''[REQUIRED]''),
        (js ''AMAZON_SKU'', js ''SKU2''),
        (js ''AMAZON_Description'', js ''[REQUIRED]''),
        (js ''AMAZON_Key_Features'', js ''[REQUIRED]''),
        (js ''AMAZON_Images'', js ''[Image URLs]'')] \<and>
   generatePlatformListing (1, 1, 1) [(js ''sku'', [])] (js ''amazon'') \<noteq>
     generatePlatformListing (2, 2, 2) [(js ''sku'', [])] (js ''amazon'')"
  by (simp add: eval_listing show_digits.simps)

text \<open>
  Claim C8, amended. When the \<open>sku\<close> field is present and not empty, two runs on the
  same fields and platform return the same result, whatever the clock reads. For every
  platform of the table, and whatever \<open>sku\<close> is, two runs return records with the same
  keys in the same order, which agree at every key but \<open>{PLATFORM}_SKU\<close>,
  \<open>{PLATFORM}_Product_ID\<close> and \<open>{PLATFORM}_Style_ID\<close>.
\<close>

theorem listing_same_given_sku:
  "(or_else (map_of ex (js ''sku'')) [] \<noteq> [] \<longrightarrow>
      generatePlatformListing now1 ex p = generatePlatformListing now2 ex p) \<and>
   ((p, flds) \<in> set PLATFORM_FIELDS \<longrightarrow>
      (\<exists>L1 L2.
         generatePlatformListing now1 ex p = Inr L1 \<and>
         generatePlatformListing now2 ex p = Inr L2 \<and>
         map fst L1 = map fst L2 \<and>
         (\<forall>k. k \<notin> listing_key p ` {js ''SKU'', js ''Product ID'', js ''Style ID''} \<longrightarrow>
              map_of L1 k = map_of L2 k)))"
proof (intro conjI impI)
  assume "or_else (map_of ex (js ''sku'')) [] \<noteq> []"
  then show "generatePlatformListing now1 ex p = generatePlatformListing now2 ex p"
    using fieldMapping_with_sku [of ex now1 now2]
    by (simp add: generatePlatformListing_def split: option.splits)
next
  assume m: "(p, flds) \<in> set PLATFORM_FIELDS"
  let ?k = "listing_key p"
  let ?v = "\<lambda>now f. or_else (map_of (fieldMapping now ex) f) (js ''[REQUIRED]'')"
  let ?w = "\<lambda>now f. or_else (map_of (fieldMapping now ex) f) []"
  let ?A = "\<lambda>now. map (\<lambda>f. (?k f, ?v now f)) (required flds)"
  let ?B = "\<lambda>now. map (\<lambda>f. (?k f, ?w now f)) (filter (\<lambda>f. ?w now f \<noteq> []) (optional flds))"
  have L: "generatePlatformListing now ex p = Inr (?A now @ ?B now)" for now
    by (rule listing_explicit [OF m])
  have flt: "filter (\<lambda>f. ?w now1 f \<noteq> []) (optional flds) =
             filter (\<lambda>f. ?w now2 f \<noteq> []) (optional flds)"
    using fieldMapping_truthy [of now1 ex _ now2] by (intro filter_cong) simp_all
  have keys: "map fst (?A now1 @ ?B now1) = map fst (?A now2 @ ?B now2)"
    using flt by (simp add: comp_def)
  have vals: "map_of (?A now1 @ ?B now1) x = map_of (?A now2 @ ?B now2) x"
    if x: "x \<notin> ?k ` {js ''SKU'', js ''Product ID'', js ''Style ID''}" for x
  proof -
    have same: "map_of (fieldMapping now1 ex) f = map_of (fieldMapping now2 ex) f"
      if "?k f = x" for f
    proof -
      from that x have "f \<notin> {js ''SKU'', js ''Product ID'', js ''Style ID''}" by blast
      then show ?thesis by (rule fieldMapping_off_ids)
    qed
    have a: "map_of (?A now1) x = map_of (?A now2) x"
      by (rule map_of_pairs_cong) (simp add: same)
    have "map_of (?B now1) x =
          map_of (map (\<lambda>f. (?k f, ?w now2 f)) (filter (\<lambda>f. ?w now1 f \<noteq> []) (optional flds))) x"
      by (rule map_of_pairs_cong) (simp add: same)
    with flt have b: "map_of (?B now1) x = map_of (?B now2) x" by simp
    show ?thesis
      unfolding map_of_append using b a by (rule map_add_cong_at)
  qed
  show "\<exists>L1 L2.
         generatePlatformListing now1 ex p = Inr L1 \<and>
         generatePlatformListing now2 ex p = Inr L2 \<and>
         map fst L1 = map fst L2 \<and>
         (\<forall>k. k \<notin> listing_key p ` {js ''SKU'', js ''Product ID'', js ''Style ID''} \<longrightarrow>
              map_of L1 k = map_of L2 k)"
  proof (intro exI conjI allI impI)
    show "generatePlatformListing now1 ex p = Inr (?A now1 @ ?B now1)"
      by (rule L)
    show "generatePlatformListing now2 ex p = Inr (?A now2 @ ?B now2)"
      by (rule L)
    show "map fst (?A now1 @ ?B now1) = map fst (?A now2 @ ?B now2)"
      by (rule keys)
    show "map_of (?A now1 @ ?B now1) x = map_of (?A now2 @ ?B now2) x"
      if "x \<notin> listing_key p ` {js ''SKU'', js ''Product ID'', js ''Style ID''}" for x
      using that by (rule vals)
  qed
qed

theorem listing_same_given_sku_witness:
  "or_else (map_of [(js ''sku'', js ''A1'')] (js ''sku'')) [] \<noteq> [] \<and>
   generatePlatformListing (1, 1, 1) [(js ''sku'', js ''A1'')] (js ''amazon'') =
     generatePlatformListing (2, 2, 2) [(js ''sku'', js ''A1'')] (js ''amazon'') \<and>
   (js ''amazon'',
    \<lparr>required = map js [''Product Name'', ''Brand'', ''Category'', ''Price'', ''MRP'', ''SKU'',
                          ''Description'', ''Key Features'', ''Images''],
     optional = map js [''Weight'', ''Dimensions'', ''Color'', ''Size'', ''Material'',
                          ''HSN Code'', ''GST'']\<rparr>) \<in> set PLATFORM_FIELDS \<and>
   (\<exists>L1 L2.
      generatePlatformListing (1, 1, 1) [] (js ''amazon'') = Inr L1 \<and>
      generatePlatformListing (2, 2, 2) [] (js ''amazon'') = Inr L2 \<and>
      map fst L1 = map fst L2 \<and>
      map_of L1 (js ''AMAZON_Brand'') = map_of L2 (js ''AMAZON_Brand''))"
proof -
  let ?F = "\<lparr>required = map js [''Product Name'', ''Brand'', ''Category'', ''Price'', ''MRP'', ''SKU'',
                          ''Description'', ''Key Features'', ''Images''],
     optional = map js [''Weight'', ''Dimensions'', ''Color'', ''Size'', ''Material'',
                          ''HSN Code'', ''GST'']\<rparr>"
  let ?ex = "[(js ''sku'', js ''A1'')]"
  have s: "or_else (map_of ?ex (js ''sku'')) [] \<noteq> []"
    by (simp add: or_else_def)
  have h: "(js ''amazon'', ?F) \<in> set PLATFORM_FIELDS"
    by (simp add: PLATFORM_FIELDS_def)
  have 1: "generatePlatformListing (1, 1, 1) ?ex (js ''amazon'') =
      generatePlatformListing (2, 2, 2) ?ex (js ''amazon'')"
    using listing_same_given_sku [of ?ex "(1, 1, 1)" "js ''amazon''" "(2, 2, 2)" ?F] s
    by (elim conjE) simp
  have "(js ''amazon'', ?F) \<in> set PLATFORM_FIELDS \<longrightarrow>
      (\<exists>L1 L2.
         generatePlatformListing (1, 1, 1) [] (js ''amazon'') = Inr L1 \<and>
         generatePlatformListing (2, 2, 2) [] (js ''amazon'') = Inr L2 \<and>
         map fst L1 = map fst L2 \<and>
         (\<forall>k. k \<notin> listing_key (js ''amazon'') ` {js ''SKU'', js ''Product ID'', js ''Style ID''} \<longrightarrow>
              map_of L1 k = map_of L2 k))"
    using listing_same_given_sku [of "[]" "(1, 1, 1)" "js ''amazon''" "(2, 2, 2)" ?F]
    by (elim conjE)
  with h obtain L1 L2 where
    L: "generatePlatformListing (1, 1, 1) [] (js ''amazon'') = Inr L1"
       "generatePlatformListing (2, 2, 2) [] (js ''amazon'') = Inr L2"
       "map fst L1 = map fst L2" and
    v: "\<forall>k. k \<notin> listing_key (js ''amazon'') ` {js ''SKU'', js ''Product ID'', js ''Style ID''} \<longrightarrow>
              map_of L1 k = map_of L2 k"
    by blast
  have "js ''AMAZON_Brand'' \<notin>
      listing_key (js ''amazon'') ` {js ''SKU'', js ''Product ID'', js ''Style ID''}"
    by (simp add: listing_key_def toUpperCase_def js_def is_space_def)
  with v have "map_of L1 (js ''AMAZON_Brand'') = map_of L2 (js ''AMAZON_Brand'')"
    by blast
  with s 1 h L show ?thesis by blast
qed

section \<open>The brand line\<close>

text \<open>
  Claim C5, as stated, fails: the pattern takes the leftmost place where a label and a
  separator are followed by text, and the word \<open>Brand\<close> of a product name comes before the
  line \<open>Brand: Acme\<close>.
\<close>

theorem brand_line_counterexample:
  "extractProductInfo (js ''Product Name: Brand New Shoes'' @ [10] @ js ''Brand: Acme'') =
     Inr [(js ''name'', js ''Brand New Shoes''), (js ''brand'', js ''New Shoes'')]"
  by (simp add: eval_extract)

text \<open>
  Claim C5, amended. For every input text that contains \<open>Brand: Acme\<close> followed by a line
  feed or by the end of the input, and in which neither \<open>brand\<close> nor \<open>manufacturer\<close> (in
  any letter case) begins before it, \<open>extractProductInfo\<close> returns fields with
  \<open>brand = Acme\<close>.
\<close>

theorem brand_line_extracted:
  assumes "\<not> label_before [''brand'', ''manufacturer''] pre (js ''Brand: Acme'' @ rest)"
    and "rest = [] \<or> hd rest = 10"
  shows "\<exists>e. extractProductInfo (pre @ js ''Brand: Acme'' @ rest) = Inr e \<and>
             map_of e (js ''brand'') = Some (js ''Acme'')"
proof -
  have t: "js ''Brand: Acme'' @ rest = js ''Brand'' @ js '': '' @ js ''Acme'' @ rest"
    by (simp add: js_def)
  have "\<exists>e. extractProductInfo (pre @ js ''Brand'' @ js '': '' @ js ''Acme'' @ rest) = Inr e \<and>
             map_of e (js ''brand'') = Some (trim (js ''Acme''))"
  proof (rule line_field_captured [OF line_patterns(2) line_labels_prefix_free(2), of "''brand''"])
    show "''brand'' \<in> set [''brand'', ''manufacturer'']" by simp
    show "map canonicalize (js ''Brand'') = map canonicalize (js ''brand'')"
      by (simp add: js_def canonicalize_def)
    show "js '': '' \<noteq> []" by simp
    show "list_all is_sep (js '': '')" by (simp add: js_def is_sep_def is_space_def)
    show "js ''Acme'' \<noteq> []" by simp
    show "list_all is_dot (js ''Acme'')" by (simp add: js_def is_dot_def)
    show "\<not> is_sep (hd (js ''Acme''))" by (simp add: js_def is_sep_def is_space_def)
    show "rest = [] \<or> hd rest = 10" by (rule assms(2))
    show "\<not> label_before [''brand'', ''manufacturer''] pre (js ''Brand'' @ js '': '' @ js ''Acme'' @ rest)"
      using assms(1) unfolding t .
  qed
  moreover have "trim (js ''Acme'') = js ''Acme''"
    by (simp add: trim_def js_def is_space_def)
  ultimately show ?thesis
    unfolding t by simp
qed

theorem brand_line_extracted_witness:
  "\<not> label_before [''brand'', ''manufacturer''] (js ''Product Name: Blue Shirt'' @ [10])
       (js ''Brand: Acme'' @ [10] @ js ''Price: 500'') \<and>
   hd ([10] @ js ''Price: 500'') = 10 \<and>
   (\<exists>e. extractProductInfo
          (js ''Product Name: Blue Shirt'' @ [10] @ js ''Brand: Acme'' @ [10] @ js ''Price: 500'') =
          Inr e \<and>
        map_of e (js ''brand'') = Some (js ''Acme''))"
proof -
  have h1: "\<not> label_before [''brand'', ''manufacturer''] (js ''Product Name: Blue Shirt'' @ [10])
       (js ''Brand: Acme'' @ [10] @ js ''Price: 500'')"
    by (simp add: js_def label_at_def eval_chars)
  have h2: "[10] @ js ''Price: 500'' = [] \<or> hd ([10] @ js ''Price: 500'') = 10"
    by simp
  from brand_line_extracted [OF h1 h2] h1 show ?thesis
    by simp
qed

section \<open>A separator that runs over a line feed\<close>

text \<open>
  Claim C10, as stated, fails: the separator \<open>[\s:]+\<close> does run over line feeds, but what
  follows must still match the rest of the pattern. After \<open>Price:\<close> at the end of a line,
  the next line \<open>Color: Blue\<close> is no number, and the price stays absent; after \<open>Size:\<close>
  and a line feed at the end of the input there is nothing to capture, and the size stays
  absent.
\<close>

theorem separator_counterexample:
  "extractProductInfo (js ''Price:'' @ [10] @ js ''Color: Blue'') = Inr [(js ''color'', js ''Blue'')] \<and>
   extractProductInfo (js ''Size:'' @ [10]) = Inr []"
  by (simp add: eval_extract)

text \<open>
  Claim C10, amended. Take one of the eight fields whose pattern captures the rest of a
  line (name, brand, category, size, color, material, weight, sku) and an input text in
  which the first place where one of its labels begins is an occurrence \<open>occ\<close> of a label,
  in any letter case, followed by a run \<open>cs\<close> of colons and white space (line feeds
  included), then by a text \<open>v\<close> that is not empty, holds no line terminator and starts
  with no separator character, and then by a line feed or by the end of the input. Then
  the extractor returns \<open>v\<close>, trimmed, as the value of the field: when \<open>cs\<close> holds a line
  feed, that is the text of a following line. So \<open>Size:\<close>, a line feed and
  \<open>Color: Blue\<close> give \<open>size = Color: Blue\<close>.
\<close>

theorem separator_then_line_captured:
  assumes "(key, ls) \<in> set line_fields"
    and "l \<in> set ls" and "map canonicalize occ = map canonicalize (js l)"
    and "cs \<noteq> []" and "list_all is_sep cs"
    and "v \<noteq> []" and "list_all is_dot v" and "\<not> is_sep (hd v)"
    and "rest = [] \<or> hd rest = 10"
    and "\<not> label_before ls pre (occ @ cs @ v @ rest)"
  shows "\<exists>e. extractProductInfo (pre @ occ @ cs @ v @ rest) = Inr e \<and>
             map_of e (js key) = Some (trim v)"
  using line_fields_patterns [OF assms(1)] line_fields_prefix_free [OF assms(1)] assms(2-)
  by (rule line_field_captured)

theorem separator_then_line_captured_witness:
  "(''size'', [''size'']) \<in> set line_fields \<and>
   map canonicalize (js ''Size'') = map canonicalize (js ''size'') \<and>
   list_all is_sep [58, 10] \<and>
   list_all is_dot (js ''Color: Blue'') \<and>
   \<not> is_sep (hd (js ''Color: Blue'')) \<and>
   \<not> label_before [''size''] [] (js ''Size'' @ [58, 10] @ js ''Color: Blue'' @ []) \<and>
   (\<exists>e. extractProductInfo (js ''Size'' @ [58, 10] @ js ''Color: Blue'') = Inr e \<and>
        map_of e (js ''size'') = Some (js ''Color: Blue''))"
proof -
  have h1: "(''size'', [''size'']) \<in> set line_fields"
    by (simp add: line_fields_def)
  have h2: "''size'' \<in> set [''size'']"
    by simp
  have h3: "map canonicalize (js ''Size'') = map canonicalize (js ''size'')"
    by (simp add: js_def eval_chars)
  have h4: "[58, 10] \<noteq> ([] :: jstring)"
    by simp
  have h5: "list_all is_sep [58, 10]"
    by (simp add: is_sep_def eval_chars)
  have h6: "js ''Color: Blue'' \<noteq> []"
    by simp
  have h7: "list_all is_dot (js ''Color: Blue'')"
    by (simp add: js_def eval_chars)
  have h8: "\<not> is_sep (hd (js ''Color: Blue''))"
    by (simp add: js_def is_sep_def eval_chars)
  have h9: "([] :: jstring) = [] \<or> hd ([] :: jstring) = 10"
    by simp
  have h10: "\<not> label_before [''size''] [] (js ''Size'' @ [58, 10] @ js ''Color: Blue'' @ [])"
    by simp
  have t: "trim (js ''Color: Blue'') = js ''Color: Blue''"
    by (simp add: trim_def js_def eval_chars)
  from separator_then_line_captured [OF h1 h2 h3 h4 h5 h6 h7 h8 h9 h10] h1 h3 h5 h7 h8 h10 t
  show ?thesis
    by simp
qed

section \<open>The price and the MRP\<close>

text \<open>
  Claim C3, as stated, fails: the text \<open>Price: 5000\<close> contains \<open>Price: 500\<close>, and the
  pattern reads all the digits: the price is \<open>5000\<close> and the MRP \<open>6000.00\<close>.
\<close>

theorem price_5000_counterexample:
  "js_includes (js ''Price: 5000'') (js ''Price: 500'') \<and>
   extractProductInfo (js ''Price: 5000'') = Inr [(js ''price'', js ''5000'')] \<and>
   map_of (fieldMapping (0, 0, 0) [(js ''price'', js ''5000'')]) (js ''MRP'') =
     Some (js ''6000.00'')"
proof (intro conjI)
  show "js_includes (js ''Price: 5000'') (js ''Price: 500'')"
    by (simp add: js_def starts_with_def)
  show "extractProductInfo (js ''Price: 5000'') = Inr [(js ''price'', js ''5000'')]"
    by (simp add: eval_extract)
  have "map_of (fieldMapping (0, 0, 0) [(js ''price'', js ''5000'')]) (js ''MRP'') =
      Some (toFixed 2 (js_times (parseFloat (js ''5000'')) (round_double (12 / 10))))"
    unfolding fieldMapping_MRP by simp
  then show "map_of (fieldMapping (0, 0, 0) [(js ''price'', js ''5000'')]) (js ''MRP'') =
      Some (js ''6000.00'')"
    unfolding mrp_of_5000 .
qed

text \<open>
  Claim C3, amended. For every input text that contains \<open>Price: 500\<close>, where none of the
  labels \<open>price\<close>, \<open>selling price\<close>, \<open>mrp\<close> (in any letter case) begins before it and what
  follows the digits is neither a digit nor a dot with a digit, \<open>extractProductInfo\<close> yields
  \<open>price = 500\<close>, and \<open>generatePlatformListing\<close> then derives \<open>MRP = 600.00\<close>. In general
  the label \<open>MRP\<close> maps to the empty string when the price is absent or empty, and else to
  \<open>(parseFloat(price) * 1.2).toFixed(2)\<close>: the product in binary64 arithmetic, rounded to
  two decimal places.
\<close>

theorem price_500_gives_mrp_600:
  assumes "\<not> label_before [''price'', ''selling price'', ''mrp''] pre (js ''Price: 500'' @ rest)"
    and "number_ends rest"
  shows "(\<exists>e. extractProductInfo (pre @ js ''Price: 500'' @ rest) = Inr e \<and>
              map_of e (js ''price'') = Some (js ''500'') \<and>
              map_of (fieldMapping now e) (js ''MRP'') = Some (js ''600.00'')) \<and>
         map_of (fieldMapping now ex) (js ''MRP'') =
           Some (case map_of ex (js ''price'') of
                   None \<Rightarrow> []
                 | Some p \<Rightarrow>
                     if p = [] then []
                     else toFixed 2 (js_times (parseFloat p) (round_double (12 / 10))))"
proof (intro conjI)
  from price_500_extracted [OF assms] obtain e where
    e: "extractProductInfo (pre @ js ''Price: 500'' @ rest) = Inr e" and
    p: "map_of e (js ''price'') = Some (js ''500'')"
    by blast
  from p have "map_of (fieldMapping now e) (js ''MRP'') =
      Some (toFixed 2 (js_times (parseFloat (js ''500'')) (round_double (12 / 10))))"
    unfolding fieldMapping_MRP by simp
  then have "map_of (fieldMapping now e) (js ''MRP'') = Some (js ''600.00'')"
    unfolding mrp_of_500 .
  with e p show "\<exists>e. extractProductInfo (pre @ js ''Price: 500'' @ rest) = Inr e \<and>
      map_of e (js ''price'') = Some (js ''500'') \<and>
      map_of (fieldMapping now e) (js ''MRP'') = Some (js ''600.00'')"
    by blast
  show "map_of (fieldMapping now ex) (js ''MRP'') =
      Some (case map_of ex (js ''price'') of
              None \<Rightarrow> []
            | Some p \<Rightarrow>
                if p = [] then []
                else toFixed 2 (js_times (parseFloat p) (round_double (12 / 10))))"
    by (rule fieldMapping_MRP)
qed

theorem price_500_gives_mrp_600_witness:
  "\<not> label_before [''price'', ''selling price'', ''mrp'']
       (js ''Product Name: Blue Shirt'' @ [10] @ js ''Brand: Acme'' @ [10])
       (js ''Price: 500'' @ [10] @ js ''Color: Blue'') \<and>
   number_ends ([10] @ js ''Color: Blue'') \<and>
   (\<exists>e. extractProductInfo
          (js ''Product Name: Blue Shirt'' @ [10] @ js ''Brand: Acme'' @ [10] @
           js ''Price: 500'' @ [10] @ js ''Color: Blue'') = Inr e \<and>
        map_of e (js ''price'') = Some (js ''500'') \<and>
        map_of (fieldMapping (1, 2, 3) e) (js ''MRP'') = Some (js ''600.00''))"
proof -
  have h1: "\<not> label_before [''price'', ''selling price'', ''mrp'']
       (js ''Product Name: Blue Shirt'' @ [10] @ js ''Brand: Acme'' @ [10])
       (js ''Price: 500'' @ [10] @ js ''Color: Blue'')"
    by (simp add: js_def label_at_def eval_chars)
  have h2: "number_ends ([10] @ js ''Color: Blue'')"
    by (simp add: number_ends_def eval_chars)
  from price_500_gives_mrp_600 [OF h1 h2, of "(1, 2, 3)" "[]"] h1 h2 show ?thesis
    by simp
qed

section \<open>A description of several lines\<close>

text \<open>
  Claim C6. The terminator of the description pattern is a blank line or the end of the
  input, but the dot of \<open>(.+?)\<close> matches no line feed: a description that goes on after
  its own line is not captured up to the blank line or the end, the pattern does not match
  at all and the field stays absent. Only a description of one line that is followed by a
  blank line or by the end of the input is captured.
\<close>

theorem description_of_two_lines_is_absent:
  "extractProductInfo (js ''Description: Soft cotton.'' @ [10] @ js ''Machine washable.'') =
     Inr [] \<and>
   extractProductInfo (js ''Description: Soft cotton.'' @ [10, 10] @ js ''Machine washable.'') =
     Inr [(js ''description'', js ''Soft cotton.'')]"
  by (simp add: eval_extract)

end
